theory Spec2Isabelle
  imports Main "HOL-Library.Sublist"
begin

section \<open>Strings as the scripts use them\<close>

text \<open>
  A \<open>string\<close> stands for the UTF-8 bytes of a JavaScript string. The scripts only compare
  text with ASCII literals, so every operation below gives the same answer on the bytes as
  on the UTF-16 code units Node works with: an ASCII byte never occurs inside the encoding
  of another character, and under the \<open>i\<close> flag (without \<open>u\<close>) the engine never lets a
  non-ASCII character match an ASCII one.
\<close>

type_synonym path = string

definition startsWith :: "string \<Rightarrow> string \<Rightarrow> bool" where
  "startsWith s p = prefix p s"

definition endsWith :: "string \<Rightarrow> string \<Rightarrow> bool" where
  "endsWith s p = suffix p s"

definition includes_js :: "string \<Rightarrow> string \<Rightarrow> bool" where
  "includes_js s p = sublist p s"

text \<open>
  \<open>s.split(sep)\<close> for a string separator: the pieces between the occurrences of \<open>sep\<close>,
  found from left to right without overlap. The second argument collects, reversed, the piece
  being read. (With an empty separator JavaScript splits into single code units; the
  scripts never do that, and the model then returns the whole string as one piece.)
\<close>

function split_js :: "string \<Rightarrow> string \<Rightarrow> string \<Rightarrow> string list" where
  "split_js sep cur [] = [rev cur]"
| "split_js sep cur (c # cs) =
     (if sep \<noteq> [] \<and> prefix sep (c # cs)
      then rev cur # split_js sep [] (drop (length sep) (c # cs))
      else split_js sep (c # cur) cs)"
  by pat_completeness auto
termination
  by (relation "measure (\<lambda>(sep, cur, s). length s)") auto

definition split :: "string \<Rightarrow> string \<Rightarrow> string list" where
  "split s sep = split_js sep [] s"

text \<open>\<open>arr.pop()\<close> returns the last element, \<open>undefined\<close> on an empty array.\<close>

definition pop :: "'a list \<Rightarrow> 'a option" where
  "pop xs = (if xs = [] then None else Some (last xs))"

text \<open>\<open>arr[i]\<close> is \<open>undefined\<close> out of range.\<close>

definition at_index :: "'a list \<Rightarrow> nat \<Rightarrow> 'a option" where
  "at_index xs i = (if i < length xs then Some (xs ! i) else None)"

subsection \<open>The regular expressions of the scripts\<close>

text \<open>
  \<open>Canonicalize\<close> of the \<open>i\<close> flag: ASCII letters are compared by their upper-case form,
  every other byte only equals itself.
\<close>

definition canonicalize :: "char \<Rightarrow> char" where
  "canonicalize c =
     (case map_of (zip ''abcdefghijklmnopqrstuvwxyz'' ''ABCDEFGHIJKLMNOPQRSTUVWXYZ'') c of
        Some u \<Rightarrow> u
      | None \<Rightarrow> c)"

definition fold_case :: "string \<Rightarrow> string" where
  "fold_case s = map canonicalize s"

text \<open>
  The line terminators of ECMAScript are LF, CR, U+2028 and U+2029; the last two are the
  byte sequences E2 80 A8 and E2 80 A9.
\<close>

definition LINE_TERMINATORS :: "string list" where
  "LINE_TERMINATORS =
     [[CHR 0x0A], [CHR 0x0D], [CHR 0xE2, CHR 0x80, CHR 0xA8], [CHR 0xE2, CHR 0x80, CHR 0xA9]]"

definition has_line_terminator :: "string \<Rightarrow> bool" where
  "has_line_terminator s = list_ex (\<lambda>t. sublist t s) LINE_TERMINATORS"

definition ends_with_line_terminator :: "string \<Rightarrow> bool" where
  "ends_with_line_terminator s = list_ex (\<lambda>t. suffix t s) LINE_TERMINATORS"

text \<open>
  The three shapes of pattern in the junk lists, all with the \<open>i\<close> flag:
  \<open>Anywhere w\<close> is \<open>/w/i\<close>, \<open>AtEnd w\<close> is \<open>/w$/i\<close> and \<open>ThenAtEnd a b\<close> is \<open>/a.*b$/i\<close>,
  where \<open>w\<close>, \<open>a\<close> and \<open>b\<close> are literal text (an escaped dot is the dot itself).
\<close>

datatype pattern = Anywhere string | AtEnd string | ThenAtEnd string string

text \<open>
  \<open>/a.*b$/\<close> on an input: somewhere \<open>a\<close> occurs, the input ends with \<open>b\<close> after it, and
  what lies between holds no line terminator (the dot matches none, and \<open>$\<close> without the
  \<open>m\<close> flag is the end of the input).
\<close>

fun dotstar_at_end :: "string \<Rightarrow> string \<Rightarrow> string \<Rightarrow> bool" where
  "dotstar_at_end a b [] =
     (a = [] \<and> b = [])"
| "dotstar_at_end a b (c # cs) =
     ((prefix a (c # cs) \<and>
        (let r = drop (length a) (c # cs)
         in suffix b r \<and> \<not> has_line_terminator (take (length r - length b) r)))
      \<or> dotstar_at_end a b cs)"

fun test :: "pattern \<Rightarrow> string \<Rightarrow> bool" where
  "test (Anywhere w) s = sublist (fold_case w) (fold_case s)"
| "test (AtEnd w) s = suffix (fold_case w) (fold_case s)"
| "test (ThenAtEnd a b) s = dotstar_at_end (fold_case a) (fold_case b) (fold_case s)"

text \<open>
  \<open>new RegExp('^' + w, 'm').test(s)\<close> for literal \<open>w\<close>: \<open>w\<close> occurs at the start of the
  input or right after a line terminator. The second argument is the text already passed,
  reversed.
\<close>

fun line_start_scan :: "string \<Rightarrow> string \<Rightarrow> string \<Rightarrow> bool" where
  "line_start_scan w seen [] =
     ((seen = [] \<or> ends_with_line_terminator (rev seen)) \<and> w = [])"
| "line_start_scan w seen (c # cs) =
     (((seen = [] \<or> ends_with_line_terminator (rev seen)) \<and> prefix w (c # cs))
      \<or> line_start_scan w (c # seen) cs)"

definition test_line_start :: "string \<Rightarrow> string \<Rightarrow> bool" where
  "test_line_start w s = line_start_scan w [] s"

text \<open>
  The text before the first occurrence of \<open>d\<close> in \<open>s\<close>, if \<open>d\<close> occurs: what a lazy group
  \<open>([\s\S]*?)\<close> captures when the literal \<open>d\<close> follows it.
\<close>

fun before_first :: "string \<Rightarrow> string \<Rightarrow> string option" where
  "before_first d [] = (if d = [] then Some [] else None)"
| "before_first d (c # cs) =
     (if prefix d (c # cs) then Some []
      else map_option ((#) c) (before_first d cs))"

section \<open>Files\<close>

text \<open>
  A directory tree: a file with its content, or a directory with its entries in the order
  \<open>readdirSync\<close> lists them. \<open>statSync(p).isDirectory()\<close> is the constructor test.
  Reading a directory with \<open>readFileSync\<close> throws \<open>EISDIR\<close>; calling a method on
  \<open>undefined\<close> throws a \<open>TypeError\<close>.
\<close>

datatype node = File string | Dir "(string \<times> node) list"

datatype js_error = EISDIR | ENOENT | ENOTDIR | TypeError

fun isDirectory :: "node \<Rightarrow> bool" where
  "isDirectory (Dir es) = True"
| "isDirectory (File c) = False"

fun readFileSync :: "node \<Rightarrow> js_error + string" where
  "readFileSync (File c) = Inr c"
| "readFileSync (Dir es) = Inl EISDIR"

subsection \<open>Joining paths\<close>

text \<open>
  \<open>path.join\<close> of Node on a POSIX system, for two arguments: the arguments that are not
  empty are put together with a slash and the result is normalised. \<open>normalize_segments\<close>
  is \<open>normalizeString\<close> of Node's \<open>path\<close> module, on the segments between the slashes:
  empty segments and \<open>.\<close> are dropped, \<open>..\<close> takes the segment before it away, and where
  there is none to take it stays only in a relative path. The second argument holds the
  segments kept so far, last one first.
\<close>

fun normalize_segments :: "bool \<Rightarrow> string list \<Rightarrow> string list \<Rightarrow> string list" where
  "normalize_segments allowAboveRoot res [] = rev res"
| "normalize_segments allowAboveRoot res (seg # segs) =
     (if seg = [] \<or> seg = ''.'' then normalize_segments allowAboveRoot res segs
      else if seg = ''..'' then
        (if res \<noteq> [] \<and> hd res \<noteq> ''..'' then normalize_segments allowAboveRoot (tl res) segs
         else if allowAboveRoot then normalize_segments allowAboveRoot (''..'' # res) segs
         else normalize_segments allowAboveRoot res segs)
      else normalize_segments allowAboveRoot (seg # res) segs)"

fun with_slashes :: "string list \<Rightarrow> string" where
  "with_slashes [] = []"
| "with_slashes [seg] = seg"
| "with_slashes (seg # next # segs) = seg @ ''/'' @ with_slashes (next # segs)"

definition normalize :: "path \<Rightarrow> path" where
  "normalize p =
     (if p = [] then ''.''
      else
        (let isAbsolute = (hd p = CHR ''/'');
             trailingSeparator = (last p = CHR ''/'');
             res = with_slashes (normalize_segments (\<not> isAbsolute) [] (split p ''/''))
         in if res = [] then
              (if isAbsolute then ''/'' else if trailingSeparator then ''./'' else ''.'')
            else (if isAbsolute then ''/'' else []) @ res
                 @ (if trailingSeparator then ''/'' else [])))"

definition join :: "path \<Rightarrow> path \<Rightarrow> path" where
  "join a b =
     (if a = [] \<and> b = [] then ''.''
      else normalize (if a = [] then b else if b = [] then a else a @ ''/'' @ b))"

text \<open>
  The traversals of the Validator call \<open>path.join(dir, item)\<close> with a directory path that is
  \<open>.\<close> or was itself made this way, and with the name of a directory entry (not empty, without
  a slash, neither \<open>.\<close> nor \<open>..\<close>). Normalising then only drops the leading \<open>./\<close>, which is
  what \<open>join_entry\<close> does; that the two agree on such arguments is proved below.
\<close>

definition join_entry :: "path \<Rightarrow> string \<Rightarrow> path" where
  "join_entry dir item = (if dir = ''.'' then item else dir @ ''/'' @ item)"

definition plain_name :: "string \<Rightarrow> bool" where
  "plain_name item = (item \<noteq> [] \<and> CHR ''/'' \<notin> set item \<and> item \<noteq> ''.'' \<and> item \<noteq> ''..'')"

section \<open>The Validator\<close>

text \<open>
  The repository holds two versions of the Validator. The one in
  \<open>scripts/validate-docs.js\<close> is called loose here, the other one (with the root allowlist
  and the delimiter pattern) strict. Where both define a function of the same name, the
  model's names end in \<open>_loose\<close> and \<open>_strict\<close>.
\<close>

subsection \<open>What is printed, and how the process ends\<close>

text \<open>
  The lines of \<open>console.log\<close>: \<open>FileHeader p\<close> is the cross mark followed by \<open>p\<close> and a
  colon, \<open>ErrorLine e\<close> is the indented error \<open>e\<close>, \<open>FailedSummary n\<close> is the cross mark
  with \<open>Validation failed: n errors\<close> and \<open>OkSummary\<close> the check mark with
  \<open>All docs validated\<close>. The process ends with an exit status (\<open>process.exit(1)\<close>, or 0
  when \<open>validate\<close> returns), or with an exception nobody catches.
\<close>

datatype line = FileHeader path | ErrorLine string | FailedSummary nat | OkSummary

datatype outcome = Exited nat "line list" | Uncaught js_error "line list"

subsection \<open>The loose version\<close>

definition JUNK_PATTERNS_loose :: "pattern list" where
  "JUNK_PATTERNS_loose =
     [AtEnd ''SUMMARY.md'',
      AtEnd ''COMPLETE.md'',
      AtEnd ''FIXES.md'',
      ThenAtEnd ''SESSION'' ''.md'',
      ThenAtEnd ''PROMPT'' ''.md'',
      AtEnd ''STATUS.md'',
      AtEnd ''_AUDIT.md'',
      AtEnd ''VERIFICATION.md'']"

definition REQUIRED_FRONTMATTER_loose :: "string list" where
  "REQUIRED_FRONTMATTER_loose = [''title'']"

text \<open>
  The traversal. \<open>files\<close> of the source, to which every call pushes, is the concatenation
  of what the calls return. Each path comes with the node found there, which is what
  \<open>readFileSync\<close> of that path meets later in the run.
\<close>

fun findMarkdownFiles_loose :: "path \<Rightarrow> (string \<times> node) list \<Rightarrow> (path \<times> node) list" where
  "findMarkdownFiles_loose dir [] = []"
| "findMarkdownFiles_loose dir ((item, Dir es) # items) =
     (if \<not> startsWith item ''.'' then findMarkdownFiles_loose (join_entry dir item) es
      else if endsWith item ''.md'' then [(join_entry dir item, Dir es)]
      else [])
     @ findMarkdownFiles_loose dir items"
| "findMarkdownFiles_loose dir ((item, File c) # items) =
     (if endsWith item ''.md'' then [(join_entry dir item, File c)] else [])
     @ findMarkdownFiles_loose dir items"

text \<open>
  \<open>filepath.split('/').pop()\<close>; an \<open>undefined\<close> there would be turned into the text
  \<open>undefined\<close> by the pattern test and by the template string.
\<close>

definition filename_of :: "path \<Rightarrow> string" where
  "filename_of filepath =
     (case pop (split filepath ''/'') of Some f \<Rightarrow> f | None \<Rightarrow> ''undefined'')"

text \<open>
  The scan for links at the end of the source's \<open>validateFile\<close> pushes no error and cannot
  throw (each link it finds holds a parenthesised part), so it is left out.
\<close>

definition validateFile_loose :: "path \<Rightarrow> node \<Rightarrow> js_error + string list" where
  "validateFile_loose filepath nd =
     (let filename = filename_of filepath;
          errors = (if list_ex (\<lambda>p. test p filename) JUNK_PATTERNS_loose
                    then [''Junk doc detected: '' @ filename] else [])
      in case readFileSync nd of
           Inl e \<Rightarrow> Inl e
         | Inr content \<Rightarrow>
             if startsWith content ''---'' then
               (case at_index (split content ''---'') 1 of
                  None \<Rightarrow>
                    if REQUIRED_FRONTMATTER_loose = [] then Inr errors else Inl TypeError
                | Some frontmatter \<Rightarrow>
                    Inr (errors @ concat (map (\<lambda>field.
                           if \<not> includes_js frontmatter (field @ '':'')
                           then [''Missing frontmatter: '' @ field] else [])
                         REQUIRED_FRONTMATTER_loose)))
             else Inr errors)"

text \<open>The loop of \<open>validate\<close>, with what was printed so far and \<open>totalErrors\<close>.\<close>

fun validate_loop_loose ::
  "(path \<times> node) list \<Rightarrow> line list \<Rightarrow> nat \<Rightarrow> js_error \<times> line list + line list \<times> nat" where
  "validate_loop_loose [] out totalErrors = Inr (out, totalErrors)"
| "validate_loop_loose ((file, nd) # files) out totalErrors =
     (case validateFile_loose file nd of
        Inl e \<Rightarrow> Inl (e, out)
      | Inr errors \<Rightarrow>
          if length errors > 0
          then validate_loop_loose files
                 (out @ FileHeader file # map ErrorLine errors) (totalErrors + length errors)
          else validate_loop_loose files out totalErrors)"

definition validate_loose :: "(string \<times> node) list \<Rightarrow> outcome" where
  "validate_loose root =
     (let files = findMarkdownFiles_loose ''.'' root
      in case validate_loop_loose files [] 0 of
           Inl (e, out) \<Rightarrow> Uncaught e out
         | Inr (out, totalErrors) \<Rightarrow>
             if totalErrors > 0 then Exited 1 (out @ [FailedSummary totalErrors])
             else Exited 0 (out @ [OkSummary]))"

subsection \<open>The strict version\<close>

definition JUNK_PATTERNS_strict :: "pattern list" where
  "JUNK_PATTERNS_strict =
     [Anywhere ''SUMMARY'',
      Anywhere ''COMPLETE'',
      Anywhere ''FIXES'',
      Anywhere ''SESSION'',
      Anywhere ''PROMPT'',
      Anywhere ''STATUS'',
      Anywhere ''AUDIT'',
      Anywhere ''VERIFICATION'']"

definition REQUIRED_FRONTMATTER_strict :: "string list" where
  "REQUIRED_FRONTMATTER_strict = [''title'', ''description'']"

definition VALIDATION_ROOTS :: "string set" where
  "VALIDATION_ROOTS = {''guide'', ''api'', ''components''}"

definition IGNORE_DIRS :: "string set" where
  "IGNORE_DIRS = {''node_modules'', ''.git'', ''.github'', ''.vscode''}"

text \<open>\<open>path.sep\<close> on a POSIX system.\<close>

definition sep :: string where
  "sep = ''/''"

definition shouldValidate :: "path \<Rightarrow> bool" where
  "shouldValidate filepath =
     (let parts = split filepath sep;
          root = at_index parts 0
      in if (case root of Some r \<Rightarrow> r \<in> VALIDATION_ROOTS | None \<Rightarrow> False) then True
         else filepath = ''index.md'')"

text \<open>
  \<open>relative(process.cwd(), fullPath)\<close>: the traversal starts at \<open>.\<close>, so \<open>fullPath\<close> is
  already the normalised path from the working directory and comes back unchanged.
\<close>

definition relative_cwd :: "path \<Rightarrow> path" where
  "relative_cwd fullPath = fullPath"

text \<open>
  The objects \<open>{ fullPath, relPath }\<close> that the traversal collects. As in the loose version,
  each comes with the node found at its path.
\<close>

record md_file =
  fullPath :: path
  relPath :: path

fun findMarkdownFiles_strict :: "path \<Rightarrow> (string \<times> node) list \<Rightarrow> (md_file \<times> node) list" where
  "findMarkdownFiles_strict dir [] = []"
| "findMarkdownFiles_strict dir ((item, Dir es) # items) =
     (if item \<in> IGNORE_DIRS \<or> startsWith item ''.'' then []
      else findMarkdownFiles_strict (join_entry dir item) es)
     @ findMarkdownFiles_strict dir items"
| "findMarkdownFiles_strict dir ((item, File c) # items) =
     (if endsWith item ''.md'' then
        (let full = join_entry dir item; rel = relative_cwd full
         in if shouldValidate rel then [(\<lparr>fullPath = full, relPath = rel\<rparr>, File c)] else [])
      else [])
     @ findMarkdownFiles_strict dir items"

text \<open>
  \<open>content.match(/^---\n([\s\S]*?)\n---/)\<close>: the content starts with three hyphens and
  a line feed, and the group is the text up to the first line feed that three hyphens
  follow; \<open>null\<close> when there is no match.
\<close>

definition extractFrontmatter :: "string \<Rightarrow> string option" where
  "extractFrontmatter content =
     (if prefix ''---\<newline>'' content
      then before_first ''\<newline>---'' (drop (length ''---\<newline>'') content)
      else None)"

text \<open>\<open>!frontmatter\<close> holds for \<open>null\<close> and for the empty string.\<close>

definition validateFile_strict :: "md_file \<Rightarrow> node \<Rightarrow> js_error + string list" where
  "validateFile_strict file nd =
     (let filename = (case pop (split (relPath file) sep) of Some f \<Rightarrow> f | None \<Rightarrow> ''undefined'');
          errors = (if list_ex (\<lambda>p. test p filename) JUNK_PATTERNS_strict
                    then [''Junk doc detected: '' @ filename] else [])
      in case readFileSync nd of
           Inl e \<Rightarrow> Inl e
         | Inr content \<Rightarrow>
             (case extractFrontmatter content of
                None \<Rightarrow> Inr (errors @ [''Missing frontmatter block''])
              | Some frontmatter \<Rightarrow>
                  if frontmatter = [] then Inr (errors @ [''Missing frontmatter block''])
                  else Inr (errors @ concat (map (\<lambda>field.
                         if \<not> test_line_start (field @ '':'') frontmatter
                         then [''Missing frontmatter: '' @ field] else [])
                       REQUIRED_FRONTMATTER_strict))))"

fun validate_loop_strict ::
  "(md_file \<times> node) list \<Rightarrow> line list \<Rightarrow> nat \<Rightarrow> js_error \<times> line list + line list \<times> nat" where
  "validate_loop_strict [] out totalErrors = Inr (out, totalErrors)"
| "validate_loop_strict ((file, nd) # files) out totalErrors =
     (case validateFile_strict file nd of
        Inl e \<Rightarrow> Inl (e, out)
      | Inr errors \<Rightarrow>
          if length errors > 0
          then validate_loop_strict files
                 (out @ FileHeader (relPath file) # map ErrorLine errors)
                 (totalErrors + length errors)
          else validate_loop_strict files out totalErrors)"

definition validate_strict :: "(string \<times> node) list \<Rightarrow> outcome" where
  "validate_strict root =
     (let files = findMarkdownFiles_strict ''.'' root
      in case validate_loop_strict files [] 0 of
           Inl (e, out) \<Rightarrow> Uncaught e out
         | Inr (out, totalErrors) \<Rightarrow>
             if totalErrors > 0 then Exited 1 (out @ [FailedSummary totalErrors])
             else Exited 0 (out @ [OkSummary]))"

subsection \<open>Words for the claims\<close>

text \<open>
  The error for a junk file name is recognised by the fixed text it starts with; the other
  two messages start differently. \<open>junk_error_loose\<close> and \<open>junk_error_strict\<close> are the
  part of the result of \<open>validateFile\<close> that the name check contributes.
\<close>

definition is_junk_error :: "string \<Rightarrow> bool" where
  "is_junk_error e = prefix ''Junk doc detected: '' e"

definition junk_error_loose :: "path \<Rightarrow> string list" where
  "junk_error_loose filepath =
     (if list_ex (\<lambda>p. test p (filename_of filepath)) JUNK_PATTERNS_loose
      then [''Junk doc detected: '' @ filename_of filepath] else [])"

definition junk_error_strict :: "md_file \<Rightarrow> string list" where
  "junk_error_strict file =
     (if list_ex (\<lambda>p. test p (filename_of (relPath file))) JUNK_PATTERNS_strict
      then [''Junk doc detected: '' @ filename_of (relPath file)] else [])"

text \<open>
  The markdown files the traversal of the strict version comes across, before the allowlist
  is applied: it leaves out the ignored directories and those whose name starts with a dot.
\<close>

fun markdown_under :: "path \<Rightarrow> (string \<times> node) list \<Rightarrow> (path \<times> node) list" where
  "markdown_under dir [] = []"
| "markdown_under dir ((item, Dir es) # items) =
     (if item \<in> IGNORE_DIRS \<or> startsWith item ''.'' then []
      else markdown_under (join_entry dir item) es)
     @ markdown_under dir items"
| "markdown_under dir ((item, File c) # items) =
     (if endsWith item ''.md'' then [(join_entry dir item, File c)] else [])
     @ markdown_under dir items"

text \<open>
  The markdown files that lie under a top-level directory named in \<open>VALIDATION_ROOTS\<close>, and
  the top-level file \<open>index.md\<close>.
\<close>

definition allowed_markdown :: "(string \<times> node) list \<Rightarrow> (path \<times> node) list" where
  "allowed_markdown root =
     concat (map (\<lambda>(item, nd).
               case nd of
                 Dir es \<Rightarrow> if item \<in> VALIDATION_ROOTS then markdown_under item es else []
               | File c \<Rightarrow> if item = ''index.md'' then [(item, File c)] else [])
             root)"

text \<open>What a run has printed, and the lines printed for one file with its errors.\<close>

fun lines_of :: "outcome \<Rightarrow> line list" where
  "lines_of (Exited status out) = out"
| "lines_of (Uncaught e out) = out"

definition group_lines :: "path \<Rightarrow> string list \<Rightarrow> line list" where
  "group_lines p errors = (if errors = [] then [] else FileHeader p # map ErrorLine errors)"

section \<open>The Sync Engine\<close>

text \<open>
  \<open>Object.entries(APPROVED_SOURCES)\<close> is the list of (source, destination) pairs in the
  order they are written (the keys are paths, none of them an array index). The table is
  kept by hand, so the loop below takes the list as an argument; the one the script holds is
  \<open>APPROVED_SOURCES\<close>.
\<close>

definition APPROVED_SOURCES :: "(path \<times> path) list" where
  "APPROVED_SOURCES =
     [(''/mnt/development/README.md'', ''guide/index.md''),
      (''/mnt/development/AI_MASTER_GUIDE.md'', ''guide/ai-guide.md''),
      (''/mnt/development/CODING_GUIDELINES.md'', ''guide/coding-guidelines.md''),
      (''/mnt/development/TYPE_SAFETY_RULES.md'', ''guide/type-safety.md''),
      (''/mnt/development/I18N_AND_ACCESSIBILITY_REQUIREMENTS.md'', ''guide/accessibility.md''),
      (''/mnt/development/DATABASE_CONNECTION_GUIDE.md'', ''guide/database.md''),
      (''/mnt/development/CLOUDFLARE_MANAGEMENT_GUIDE.md'', ''guide/deployment.md'')]"

definition BLOCKED_PATTERNS :: "pattern list" where
  "BLOCKED_PATTERNS =
     [Anywhere ''SUMMARY'',
      Anywhere ''COMPLETE'',
      Anywhere ''FIXES'',
      Anywhere ''SESSION'',
      Anywhere ''PROMPT'',
      Anywhere ''STATUS'',
      Anywhere ''AUDIT'']"

definition isJunkDoc :: "string \<Rightarrow> bool" where
  "isJunkDoc filename = list_ex (\<lambda>pattern. test pattern filename) BLOCKED_PATTERNS"

subsection \<open>The loop\<close>

text \<open>
  The three calls into \<open>fs\<close> that the script makes, on a state of the file system of type
  \<open>'d\<close> and with contents of type \<open>'c\<close> (the script never looks into a content). A read or
  a write can throw; \<open>existsSync\<close> cannot.
\<close>

record ('d, 'c) file_system =
  fs_existsSync :: "'d \<Rightarrow> path \<Rightarrow> bool"
  fs_readFileSync :: "'d \<Rightarrow> path \<Rightarrow> js_error + 'c"
  fs_writeFileSync :: "'d \<Rightarrow> path \<Rightarrow> 'c \<Rightarrow> js_error + 'd"

text \<open>
  The lines of \<open>console.log\<close>: \<open>Blocked source\<close>, \<open>Synced source dest\<close> and the summary
  with the two counts.
\<close>

datatype sync_line = Blocked path | Synced path path | Summary nat nat

record 'd sync_state =
  disk :: 'd
  synced :: nat
  blocked :: nat
  printed :: "sync_line list"

text \<open>
  The loop of \<open>syncDocs\<close>; \<open>cwd\<close> is \<open>process.cwd()\<close>. An exception of a read or a write
  is caught nowhere and ends the run.
\<close>

fun sync_loop ::
  "('d, 'c) file_system \<Rightarrow> path \<Rightarrow> (path \<times> path) list \<Rightarrow> 'd sync_state
     \<Rightarrow> js_error + 'd sync_state" where
  "sync_loop fs cwd [] st = Inr st"
| "sync_loop fs cwd ((source, dest) # entries) st =
     (if isJunkDoc source then
        sync_loop fs cwd entries
          (st\<lparr>printed := printed st @ [Blocked source], blocked := blocked st + 1\<rparr>)
      else if fs_existsSync fs (disk st) source then
        (case fs_readFileSync fs (disk st) source of
           Inl e \<Rightarrow> Inl e
         | Inr content \<Rightarrow>
             (let destPath = join cwd dest
              in case fs_writeFileSync fs (disk st) destPath content of
                   Inl e \<Rightarrow> Inl e
                 | Inr written \<Rightarrow>
                     sync_loop fs cwd entries
                       (st\<lparr>disk := written,
                           printed := printed st @ [Synced source dest],
                           synced := synced st + 1\<rparr>)))
      else sync_loop fs cwd entries st)"

definition start :: "'d \<Rightarrow> 'd sync_state" where
  "start d = \<lparr>disk = d, synced = 0, blocked = 0, printed = []\<rparr>"

definition sync_run ::
  "('d, 'c) file_system \<Rightarrow> path \<Rightarrow> (path \<times> path) list \<Rightarrow> 'd \<Rightarrow> js_error + 'd sync_state" where
  "sync_run fs cwd entries d =
     (case sync_loop fs cwd entries (start d) of
        Inl e \<Rightarrow> Inl e
      | Inr st \<Rightarrow> Inr (st\<lparr>printed := printed st @ [Summary (synced st) (blocked st)]\<rparr>))"

subsection \<open>Files that can always be read and written\<close>

text \<open>
  The simplest file system: a map from path strings to contents, in which every path that
  exists is a readable file and every write goes through. \<open>readFileSync\<close> of a path that
  does not exist throws \<open>ENOENT\<close>. \<open>syncDocs\<close> is the script on such files.
\<close>

type_synonym 'c files = "path \<rightharpoonup> 'c"



subsection \<open>Directories and files\<close>

text \<open>
  A POSIX file system without symbolic links, in which every directory may be searched and
  written and every file read and written. A place is the list of names from the root down;
  the volume says which places are directories and which are files, with their contents.
  The script creates no directory, so the directories stay as they are during a run.
\<close>

type_synonym location = "string list"

record 'c volume =
  contents :: "location \<rightharpoonup> 'c"
  directories :: "location set"

text \<open>
  The way the system resolves a path, name by name from the root: a name can only be looked
  up in a place that is a directory; \<open>.\<close> and the empty name between two slashes stay,
  \<open>..\<close> goes up (and stays at the root).
\<close>

fun walk :: "'c volume \<Rightarrow> location \<Rightarrow> string list \<Rightarrow> js_error + location" where
  "walk v here [] = Inr here"
| "walk v here (name # names) =
     (if here \<in> directories v then
        walk v (if name = [] \<or> name = ''.'' then here
                else if name = ''..'' then butlast here
                else here @ [name]) names
      else if contents v here \<noteq> None then Inl ENOTDIR
      else Inl ENOENT)"

text \<open>A relative path starts at the working directory; the empty path names nothing.\<close>

definition locate :: "'c volume \<Rightarrow> path \<Rightarrow> path \<Rightarrow> js_error + location" where
  "locate v cwd p =
     (if p = [] then Inl ENOENT
      else walk v [] (split (if startsWith p ''/'' then p else cwd @ ''/'' @ p) ''/''))"

definition existsSync :: "'c volume \<Rightarrow> path \<Rightarrow> path \<Rightarrow> bool" where
  "existsSync v cwd p =
     (case locate v cwd p of
        Inl e \<Rightarrow> False
      | Inr place \<Rightarrow> place \<in> directories v \<or> contents v place \<noteq> None)"

definition readFileSync_path :: "'c volume \<Rightarrow> path \<Rightarrow> path \<Rightarrow> js_error + 'c" where
  "readFileSync_path v cwd p =
     (case locate v cwd p of
        Inl e \<Rightarrow> Inl e
      | Inr place \<Rightarrow>
          if place \<in> directories v then Inl EISDIR
          else (case contents v place of None \<Rightarrow> Inl ENOENT | Some content \<Rightarrow> Inr content))"

definition writeFileSync :: "'c volume \<Rightarrow> path \<Rightarrow> path \<Rightarrow> 'c \<Rightarrow> js_error + 'c volume" where
  "writeFileSync v cwd p content =
     (case locate v cwd p of
        Inl e \<Rightarrow> Inl e
      | Inr place \<Rightarrow>
          if place \<in> directories v then Inl EISDIR
          else Inr (v\<lparr>contents := (contents v)(place \<mapsto> content)\<rparr>))"

definition posix :: "path \<Rightarrow> ('c volume, 'c) file_system" where
  "posix cwd =
     \<lparr>fs_existsSync = (\<lambda>v p. existsSync v cwd p),
      fs_readFileSync = (\<lambda>v p. readFileSync_path v cwd p),
      fs_writeFileSync = (\<lambda>v p content. writeFileSync v cwd p content)\<rparr>"

definition syncDocs_posix ::
  "path \<Rightarrow> (path \<times> path) list \<Rightarrow> 'c volume \<Rightarrow> js_error + 'c volume sync_state" where
  "syncDocs_posix cwd entries v = sync_run (posix cwd) cwd entries v"

subsection \<open>Words for the claims about the Sync Engine\<close>

text \<open>
  The loop from its start over a part of the mapping, and the state it is in afterwards (for a
  prefix of the mapping: the state in which the next entry is reached, if the loop gets there).
\<close>

definition sync_from ::
  "path \<Rightarrow> (path \<times> path) list \<Rightarrow> 'c volume \<Rightarrow> js_error + 'c volume sync_state" where
  "sync_from cwd entries v = sync_loop (posix cwd) cwd entries (start v)"

definition state_after :: "path \<Rightarrow> (path \<times> path) list \<Rightarrow> 'c volume \<Rightarrow> 'c volume sync_state" where
  "state_after cwd entries v =
     (case sync_from cwd entries v of Inr st \<Rightarrow> st | Inl e \<Rightarrow> start v)"

text \<open>
  A path names a directory; a path names a place to which a file can be written (every
  directory on the way to it exists and it is not a directory itself).
\<close>

definition is_directory :: "'c volume \<Rightarrow> path \<Rightarrow> path \<Rightarrow> bool" where
  "is_directory v cwd p =
     (case locate v cwd p of Inl e \<Rightarrow> False | Inr place \<Rightarrow> place \<in> directories v)"

definition can_write :: "'c volume \<Rightarrow> path \<Rightarrow> path \<Rightarrow> bool" where
  "can_write v cwd p =
     (case locate v cwd p of Inl e \<Rightarrow> False | Inr place \<Rightarrow> place \<notin> directories v)"

text \<open>Two paths name the same place.\<close>

definition same_place :: "'c volume \<Rightarrow> path \<Rightarrow> path \<Rightarrow> path \<Rightarrow> bool" where
  "same_place v cwd p q =
     (case locate v cwd p of Inl e \<Rightarrow> False | Inr place \<Rightarrow> locate v cwd q = Inr place)"

section \<open>Facts about the string operations\<close>

lemma before_first_None_iff: "before_first d s = None \<longleftrightarrow> \<not> sublist d s"
proof (induction s)
  case Nil
  show ?case by simp
next
  case (Cons c cs)
  show ?case using Cons.IH by (simp add: sublist_Cons_right)
qed

lemma before_first_Some:
  "before_first d s = Some b \<Longrightarrow> \<exists>r. s = b @ d @ r"
proof (induction s arbitrary: b)
  case Nil
  then show ?case by (simp split: if_splits)
next
  case (Cons c cs)
  show ?case
  proof (cases "prefix d (c # cs)")
    case True
    with Cons.prems have "b = []" by simp
    with True show ?thesis by (auto simp: prefix_def)
  next
    case False
    with Cons.prems obtain b' where b': "before_first d cs = Some b'" and b: "b = c # b'"
      by auto
    from Cons.IH [OF b'] b show ?thesis by auto
  qed
qed

lemma before_first_earliest:
  "before_first d s = Some b \<Longrightarrow> n < length b \<Longrightarrow> \<not> prefix d (drop n s)"
proof (induction s arbitrary: b n)
  case Nil
  then show ?case by (simp split: if_splits)
next
  case (Cons c cs)
  show ?case
  proof (cases "prefix d (c # cs)")
    case True
    with Cons.prems show ?thesis by simp
  next
    case False
    with Cons.prems obtain b' where b': "before_first d cs = Some b'" and b: "b = c # b'"
      by auto
    show ?thesis
    proof (cases n)
      case 0
      with False show ?thesis by simp
    next
      case (Suc m)
      with Cons.prems b have "m < length b'" by simp
      from Cons.IH [OF b' this] Suc show ?thesis by simp
    qed
  qed
qed

lemma before_first_found:
  "(\<And>n. n < length b \<Longrightarrow> \<not> prefix d (drop n (b @ d @ r))) \<Longrightarrow> before_first d (b @ d @ r) = Some b"
proof (induction b)
  case Nil
  have "prefix d (d @ r)" by simp
  then show ?case by (cases "d @ r") auto
next
  case (Cons c b)
  from Cons.prems [of 0] have np: "\<not> prefix d (c # b @ d @ r)" by simp
  have "before_first d (b @ d @ r) = Some b"
  proof (rule Cons.IH)
    fix n assume "n < length b"
    then have "Suc n < length (c # b)" by simp
    from Cons.prems [OF this] show "\<not> prefix d (drop n (b @ d @ r))" by simp
  qed
  with np show ?case by simp
qed

lemma split_js_before_first:
  "d \<noteq> [] \<Longrightarrow>
   split_js d cur s =
     (case before_first d s of
        None \<Rightarrow> [rev cur @ s]
      | Some b \<Rightarrow> (rev cur @ b) # split_js d [] (drop (length b + length d) s))"
proof (induction s arbitrary: cur)
  case Nil
  then show ?case by simp
next
  case (Cons c cs)
  show ?case
  proof (cases "prefix d (c # cs)")
    case True
    with Cons.prems show ?thesis by simp
  next
    case False
    with Cons.prems Cons.IH [OF Cons.prems, of "c # cur"] show ?thesis
      by (simp split: option.split)
  qed
qed

lemma split_js_not_Nil: "split_js d cur s \<noteq> []"
  by (induction s arbitrary: cur) auto

lemma split_frontmatter:
  assumes "startsWith content ''---''"
  shows "at_index (split content ''---'') 1 =
     Some (case before_first ''---'' (drop 3 content) of Some b \<Rightarrow> b | None \<Rightarrow> drop 3 content)"
proof -
  from assms obtain rest where c: "content = ''---'' @ rest"
    by (auto simp: startsWith_def prefix_def)
  have "split content ''---'' = [] # split_js ''---'' [] rest"
    by (simp add: split_def c)
  moreover have "split_js ''---'' [] rest =
     (case before_first ''---'' rest of
        None \<Rightarrow> [rest]
      | Some b \<Rightarrow> b # split_js ''---'' [] (drop (length b + length ''---'') rest))"
    using split_js_before_first [of "''---''" "[]" rest] by (simp split: option.split)
  ultimately show ?thesis
    by (simp add: at_index_def c split: option.split)
qed

lemma split_js_no_sep:
  "c \<notin> set s \<Longrightarrow> split_js [c] cur s = [rev cur @ s]"
  by (induction s arbitrary: cur) auto

lemma last_split_js:
  "last (split_js [c] cur (a @ c # b)) = last (split_js [c] [] b)"
proof (induction a arbitrary: cur)
  case Nil
  show ?case by (simp add: split_js_not_Nil)
next
  case (Cons x a)
  show ?case by (cases "x = c") (simp_all add: Cons.IH split_js_not_Nil)
qed

lemma hd_split_js:
  "c \<notin> set a \<Longrightarrow> hd (split_js [c] cur (a @ c # b)) = rev cur @ a"
  by (induction a arbitrary: cur) auto

lemma filename_of_plain: "CHR ''/'' \<notin> set item \<Longrightarrow> filename_of item = item"
  by (simp add: filename_of_def pop_def split_def split_js_no_sep)

lemma filename_of_in_dir: "CHR ''/'' \<notin> set item \<Longrightarrow> filename_of (dir @ ''/'' @ item) = item"
  using last_split_js [of "CHR ''/''" "[]" dir item]
  by (simp add: filename_of_def pop_def split_def split_js_no_sep split_js_not_Nil)

lemma filename_of_last: "filename_of p = last (split p ''/'')"
  by (simp add: filename_of_def pop_def split_def split_js_not_Nil)

lemma sublist_map_iff:
  "sublist w (map f s) \<longleftrightarrow> (\<exists>before mid after. s = before @ mid @ after \<and> map f mid = w)"
proof
  assume "sublist w (map f s)"
  then obtain ps ss where "map f s = ps @ w @ ss" by (auto simp: sublist_def)
  then obtain before rest where s: "s = before @ rest" and "w @ ss = map f rest"
    unfolding map_eq_append_conv by blast
  then obtain mid after where "rest = mid @ after" and "map f mid = w"
    unfolding append_eq_map_conv by blast
  with s show "\<exists>before mid after. s = before @ mid @ after \<and> map f mid = w" by blast
next
  assume "\<exists>before mid after. s = before @ mid @ after \<and> map f mid = w"
  then obtain before mid after where "s = before @ mid @ after" and "map f mid = w" by blast
  then have "map f s = map f before @ w @ map f after" by simp
  then show "sublist w (map f s)" unfolding sublist_def by blast
qed

lemma line_start_scan_iff:
  "line_start_scan w seen s \<longleftrightarrow>
     (\<exists>before after. s = before @ w @ after \<and>
        (rev seen @ before = [] \<or> ends_with_line_terminator (rev seen @ before)))"
proof (induction s arbitrary: seen)
  case Nil
  show ?case by auto
next
  case (Cons c cs)
  have "(\<exists>before after. c # cs = before @ w @ after \<and>
        (rev seen @ before = [] \<or> ends_with_line_terminator (rev seen @ before))) \<longleftrightarrow>
      ((\<exists>after. c # cs = w @ after) \<and> (seen = [] \<or> ends_with_line_terminator (rev seen))) \<or>
      (\<exists>before' after. cs = before' @ w @ after \<and>
         ends_with_line_terminator (rev seen @ c # before'))"
    (is "?L \<longleftrightarrow> ?A \<or> ?B")
  proof
    assume ?L
    then obtain before after where s: "c # cs = before @ w @ after"
      and l: "rev seen @ before = [] \<or> ends_with_line_terminator (rev seen @ before)" by blast
    show "?A \<or> ?B"
    proof (cases before)
      case Nil
      with s l show ?thesis by auto
    next
      case (Cons x before')
      with s l have "cs = before' @ w @ after" "ends_with_line_terminator (rev seen @ c # before')"
        by auto
      then show ?thesis by blast
    qed
  next
    assume "?A \<or> ?B"
    then show ?L
    proof
      assume ?A
      then obtain after where "c # cs = [] @ w @ after"
        and "rev seen @ [] = [] \<or> ends_with_line_terminator (rev seen @ [])" by auto
      then show ?L by blast
    next
      assume ?B
      then obtain before' after where "c # cs = (c # before') @ w @ after"
        and "ends_with_line_terminator (rev seen @ (c # before'))" by auto
      then show ?L by blast
    qed
  qed
  moreover have "line_start_scan w (c # seen) cs \<longleftrightarrow> ?B"
    by (simp add: Cons.IH)
  ultimately show ?case by (auto simp: prefix_def)
qed

lemma test_line_start_iff:
  "test_line_start w s \<longleftrightarrow>
     (\<exists>before after. s = before @ w @ after \<and> (before = [] \<or> ends_with_line_terminator before))"
  by (simp add: test_line_start_def line_start_scan_iff)

lemma not_has_line_terminator_Nil: "\<not> has_line_terminator []"
  by (simp add: has_line_terminator_def LINE_TERMINATORS_def)

lemma dotstar_at_end_iff:
  "dotstar_at_end a b s \<longleftrightarrow>
     (\<exists>before mid. s = before @ a @ mid @ b \<and> \<not> has_line_terminator mid)"
proof (induction s)
  case Nil
  show ?case by (auto simp: not_has_line_terminator_Nil)
next
  case (Cons c cs)
  have here: "(prefix a (c # cs) \<and>
        (let r = drop (length a) (c # cs)
         in suffix b r \<and> \<not> has_line_terminator (take (length r - length b) r))) \<longleftrightarrow>
      (\<exists>mid. c # cs = a @ mid @ b \<and> \<not> has_line_terminator mid)" (is "?H \<longleftrightarrow> ?M")
  proof
    assume ?H
    then have p: "prefix a (c # cs)" and sb: "suffix b (drop (length a) (c # cs))"
      and nl: "\<not> has_line_terminator
          (take (length (drop (length a) (c # cs)) - length b) (drop (length a) (c # cs)))"
      unfolding Let_def by blast+
    from p obtain r where r: "c # cs = a @ r" by (auto simp: prefix_def)
    then have d: "drop (length a) (c # cs) = r" by simp
    from sb obtain mid where m: "r = mid @ b" unfolding d by (auto simp: suffix_def)
    from nl have "\<not> has_line_terminator mid" unfolding d m by simp
    with r m show ?M by blast
  next
    assume ?M
    then obtain mid where "c # cs = a @ mid @ b" and "\<not> has_line_terminator mid" by blast
    then show ?H by (simp add: Let_def suffix_def)
  qed
  have "(\<exists>before mid. c # cs = before @ a @ mid @ b \<and> \<not> has_line_terminator mid) \<longleftrightarrow>
      ?M \<or> (\<exists>before' mid. cs = before' @ a @ mid @ b \<and> \<not> has_line_terminator mid)"
    (is "?L \<longleftrightarrow> ?M \<or> ?R")
  proof
    assume ?L
    then obtain before mid where s: "c # cs = before @ a @ mid @ b" and nl: "\<not> has_line_terminator mid"
      by blast
    show "?M \<or> ?R"
    proof (cases before)
      case Nil
      with s nl show ?thesis by auto
    next
      case (Cons x before')
      with s have "cs = before' @ a @ mid @ b" by simp
      with nl show ?thesis by blast
    qed
  next
    assume "?M \<or> ?R"
    then show ?L
    proof
      assume ?M
      then obtain mid where "c # cs = [] @ a @ mid @ b" and "\<not> has_line_terminator mid" by auto
      then show ?L by blast
    next
      assume ?R
      then obtain before' mid where "c # cs = (c # before') @ a @ mid @ b"
        and "\<not> has_line_terminator mid" by auto
      then show ?L by blast
    qed
  qed
  with here Cons.IH show ?case by simp
qed

section \<open>Facts about the check of one file\<close>

lemma validateFile_loose_File:
  "validateFile_loose filepath (File content) =
     Inr (junk_error_loose filepath @
          (if startsWith content ''---''
           then (if includes_js (case before_first ''---'' (drop 3 content) of
                                   Some b \<Rightarrow> b | None \<Rightarrow> drop 3 content) ''title:''
                 then [] else [''Missing frontmatter: title''])
           else []))"
proof (cases "startsWith content ''---''")
  case True
  from split_frontmatter [OF True]
  have "at_index (split content ''---'') (Suc 0) =
     Some (case before_first ''---'' (drop 3 content) of Some b \<Rightarrow> b | None \<Rightarrow> drop 3 content)"
    by simp
  with True show ?thesis
    by (simp add: validateFile_loose_def junk_error_loose_def Let_def
          REQUIRED_FRONTMATTER_loose_def)
next
  case False
  then show ?thesis
    by (simp add: validateFile_loose_def junk_error_loose_def Let_def)
qed

lemma validateFile_strict_File:
  "validateFile_strict file (File content) =
     Inr (junk_error_strict file @
          (case extractFrontmatter content of
             None \<Rightarrow> [''Missing frontmatter block'']
           | Some frontmatter \<Rightarrow>
               if frontmatter = [] then [''Missing frontmatter block'']
               else (if test_line_start ''title:'' frontmatter then []
                     else [''Missing frontmatter: title'']) @
                    (if test_line_start ''description:'' frontmatter then []
                     else [''Missing frontmatter: description''])))"
  by (simp add: validateFile_strict_def junk_error_strict_def Let_def sep_def filename_of_def
        REQUIRED_FRONTMATTER_strict_def split: option.split)

lemma extractFrontmatter_None_iff:
  "extractFrontmatter content = None \<longleftrightarrow>
     \<not> (\<exists>block rest. content = ''---\<newline>'' @ block @ ''\<newline>---'' @ rest)"
proof (cases "prefix ''---\<newline>'' content")
  case True
  then obtain r where c: "content = ''---\<newline>'' @ r" by (auto simp: prefix_def)
  have "extractFrontmatter content = None \<longleftrightarrow> \<not> sublist ''\<newline>---'' r"
    by (simp add: extractFrontmatter_def c before_first_None_iff)
  also have "\<dots> \<longleftrightarrow> \<not> (\<exists>block rest. r = block @ ''\<newline>---'' @ rest)"
    by (simp add: sublist_def)
  also have "\<dots> \<longleftrightarrow> \<not> (\<exists>block rest. content = ''---\<newline>'' @ block @ ''\<newline>---'' @ rest)"
    by (simp add: c)
  finally show ?thesis .
next
  case False
  then have "extractFrontmatter content = None" by (simp add: extractFrontmatter_def)
  moreover from False have "\<not> (\<exists>block rest. content = ''---\<newline>'' @ block @ ''\<newline>---'' @ rest)"
    by (auto simp: prefix_def)
  ultimately show ?thesis by simp
qed

lemma extractFrontmatter_Some_iff:
  "extractFrontmatter content = Some block \<longleftrightarrow>
     (\<exists>rest. content = ''---\<newline>'' @ block @ ''\<newline>---'' @ rest \<and>
        (\<forall>n<length block. \<not> prefix ''\<newline>---'' (drop n (block @ ''\<newline>---'' @ rest))))"
proof
  assume e: "extractFrontmatter content = Some block"
  then have p: "prefix ''---\<newline>'' content"
    by (simp add: extractFrontmatter_def split: if_splits)
  then obtain r where c: "content = ''---\<newline>'' @ r" by (auto simp: prefix_def)
  with e have b: "before_first ''\<newline>---'' r = Some block"
    by (simp add: extractFrontmatter_def)
  from before_first_Some [OF b] obtain rest where r: "r = block @ ''\<newline>---'' @ rest" by blast
  from before_first_earliest [OF b] r
  have "\<forall>n<length block. \<not> prefix ''\<newline>---'' (drop n (block @ ''\<newline>---'' @ rest))" by blast
  with c r show "\<exists>rest. content = ''---\<newline>'' @ block @ ''\<newline>---'' @ rest \<and>
        (\<forall>n<length block. \<not> prefix ''\<newline>---'' (drop n (block @ ''\<newline>---'' @ rest)))"
    by blast
next
  assume "\<exists>rest. content = ''---\<newline>'' @ block @ ''\<newline>---'' @ rest \<and>
        (\<forall>n<length block. \<not> prefix ''\<newline>---'' (drop n (block @ ''\<newline>---'' @ rest)))"
  then obtain rest where c: "content = ''---\<newline>'' @ block @ ''\<newline>---'' @ rest"
    and first: "\<And>n. n < length block \<Longrightarrow> \<not> prefix ''\<newline>---'' (drop n (block @ ''\<newline>---'' @ rest))"
    by blast
  from before_first_found [of block "''\<newline>---''" rest, OF first]
  have "before_first ''\<newline>---'' (block @ ''\<newline>---'' @ rest) = Some block" by blast
  then show "extractFrontmatter content = Some block"
    by (simp add: extractFrontmatter_def c)
qed

lemma test_Anywhere_iff:
  "test (Anywhere word) s \<longleftrightarrow>
     (\<exists>before mid after. s = before @ mid @ after \<and> fold_case mid = fold_case word)"
  unfolding test.simps fold_case_def by (rule sublist_map_iff)

lemma test_AtEnd_iff:
  "test (AtEnd word) s \<longleftrightarrow> (\<exists>before. fold_case s = before @ fold_case word)"
  by (simp add: suffix_def)

lemma test_ThenAtEnd_iff:
  "test (ThenAtEnd a b) s \<longleftrightarrow>
     (\<exists>before mid. fold_case s = before @ fold_case a @ mid @ fold_case b \<and>
        \<not> has_line_terminator mid)"
  by (simp add: dotstar_at_end_iff)

lemma JUNK_PATTERNS_strict_iff:
  "list_ex (\<lambda>p. test p name) JUNK_PATTERNS_strict \<longleftrightarrow>
     (\<exists>word \<in> {''SUMMARY'', ''COMPLETE'', ''FIXES'', ''SESSION'', ''PROMPT'', ''STATUS'',
                 ''AUDIT'', ''VERIFICATION''}.
        \<exists>before mid after. name = before @ mid @ after \<and> fold_case mid = word)"
proof -
  have w: "fold_case ''SUMMARY'' = ''SUMMARY''" "fold_case ''COMPLETE'' = ''COMPLETE''"
    "fold_case ''FIXES'' = ''FIXES''" "fold_case ''SESSION'' = ''SESSION''"
    "fold_case ''PROMPT'' = ''PROMPT''" "fold_case ''STATUS'' = ''STATUS''"
    "fold_case ''AUDIT'' = ''AUDIT''" "fold_case ''VERIFICATION'' = ''VERIFICATION''"
    by code_simp+
  show ?thesis
    unfolding JUNK_PATTERNS_strict_def list_ex_Cons_iff list_ex_Nil_iff test_Anywhere_iff w
    by simp
qed

lemma JUNK_PATTERNS_loose_iff:
  "list_ex (\<lambda>p. test p name) JUNK_PATTERNS_loose \<longleftrightarrow>
     (\<exists>ending \<in> {''SUMMARY.MD'', ''COMPLETE.MD'', ''FIXES.MD'', ''STATUS.MD'', ''_AUDIT.MD'',
                   ''VERIFICATION.MD''}.
        \<exists>before. fold_case name = before @ ending) \<or>
     (\<exists>word \<in> {''SESSION'', ''PROMPT''}.
        \<exists>before mid. fold_case name = before @ word @ mid @ ''.MD'' \<and> \<not> has_line_terminator mid)"
proof -
  have w: "fold_case ''SUMMARY.md'' = ''SUMMARY.MD''" "fold_case ''COMPLETE.md'' = ''COMPLETE.MD''"
    "fold_case ''FIXES.md'' = ''FIXES.MD''" "fold_case ''SESSION'' = ''SESSION''"
    "fold_case ''PROMPT'' = ''PROMPT''" "fold_case ''STATUS.md'' = ''STATUS.MD''"
    "fold_case ''_AUDIT.md'' = ''_AUDIT.MD''" "fold_case ''VERIFICATION.md'' = ''VERIFICATION.MD''"
    "fold_case ''.md'' = ''.MD''"
    by code_simp+
  show ?thesis
    unfolding JUNK_PATTERNS_loose_def list_ex_Cons_iff list_ex_Nil_iff test_AtEnd_iff
      test_ThenAtEnd_iff w
    by (simp add: disj_ac)
qed

lemma not_junk_messages:
  "\<not> is_junk_error ''Missing frontmatter block''"
  "\<not> is_junk_error (''Missing frontmatter: '' @ field)"
  "is_junk_error (''Junk doc detected: '' @ name)"
  by (simp_all add: is_junk_error_def)

lemma junk_errors_strict:
  "\<exists>errors. validateFile_strict file (File content) = Inr errors \<and>
     filter is_junk_error errors = junk_error_strict file"
  by (simp add: validateFile_strict_File junk_error_strict_def is_junk_error_def
        split: option.split)

lemma junk_errors_loose:
  "\<exists>errors. validateFile_loose filepath (File content) = Inr errors \<and>
     filter is_junk_error errors = junk_error_loose filepath"
  by (simp add: validateFile_loose_File junk_error_loose_def is_junk_error_def)

section \<open>The claims about the check of one file\<close>

text \<open>
  Claim C1, as amended. In the strict version, a file whose content does not start with
  three hyphens and a line feed, followed somewhere by a line feed and three hyphens, gets
  the error for its name (if its name is junk) and then exactly the one error
  \<open>Missing frontmatter block\<close>: no required field is looked for. The loose version has no
  such error: a file whose content does not start with three hyphens gets no error about
  frontmatter at all.
\<close>

theorem missing_block_reported:
  "(\<not> (\<exists>block rest. content = ''---\<newline>'' @ block @ ''\<newline>---'' @ rest) \<longrightarrow>
      validateFile_strict file (File content) =
        Inr (junk_error_strict file @ [''Missing frontmatter block''])) \<and>
   (\<not> startsWith content' ''---'' \<longrightarrow>
      validateFile_loose filepath (File content') = Inr (junk_error_loose filepath))"
proof (intro conjI impI)
  assume "\<not> (\<exists>block rest. content = ''---\<newline>'' @ block @ ''\<newline>---'' @ rest)"
  then have "extractFrontmatter content = None" by (rule extractFrontmatter_None_iff [THEN iffD2])
  then show "validateFile_strict file (File content) =
        Inr (junk_error_strict file @ [''Missing frontmatter block''])"
    by (simp add: validateFile_strict_File)
next
  assume "\<not> startsWith content' ''---''"
  then show "validateFile_loose filepath (File content') = Inr (junk_error_loose filepath)"
    by (simp add: validateFile_loose_File)
qed

theorem missing_block_reported_witness:
  "validateFile_strict \<lparr>fullPath = ''guide/notes.md'', relPath = ''guide/notes.md''\<rparr>
     (File ''# Notes'') = Inr [''Missing frontmatter block''] \<and>
   validateFile_loose ''guide/notes.md'' (File ''# Notes'') = Inr []"
proof -
  have no_block: "\<not> (\<exists>block rest. ''# Notes'' = ''---\<newline>'' @ block @ ''\<newline>---'' @ rest)"
    by simp
  have no_start: "\<not> startsWith ''# Notes'' ''---''" by (simp add: startsWith_def)
  have clean: "junk_error_strict \<lparr>fullPath = ''guide/notes.md'', relPath = ''guide/notes.md''\<rparr> = []"
    "junk_error_loose ''guide/notes.md'' = []"
    by code_simp+
  from missing_block_reported
    [of "''# Notes''" "\<lparr>fullPath = ''guide/notes.md'', relPath = ''guide/notes.md''\<rparr>"
        "''# Notes''" "''guide/notes.md''"]
    no_block no_start
  show ?thesis by (simp add: clean)
qed

text \<open>
  The claim as it was stated fails in the loose version: the content has no frontmatter
  block and no error is reported.
\<close>

theorem missing_block_loose_counterexample:
  "\<not> startsWith ''# Notes without frontmatter'' ''---'' \<and>
   validateFile_loose ''guide/plain.md'' (File ''# Notes without frontmatter'') = Inr []"
  by code_simp

text \<open>
  Claim C3, as amended. Whatever the content, the result of \<open>validateFile\<close> holds exactly
  one junk error if the file name matches and none otherwise, where a name matches in the
  strict version when one of the eight blocked words occurs anywhere in it, letter case
  ignored, and in the loose version only when the name ends in one of six words followed by
  \<open>.md\<close>, or holds \<open>SESSION\<close> or \<open>PROMPT\<close> followed by text without a line break and ends
  in \<open>.md\<close> (letter case ignored).
\<close>

theorem junk_filename_reported_once:
  "(\<exists>errors. validateFile_strict file (File content) = Inr errors \<and>
      filter is_junk_error errors =
        (if \<exists>word \<in> {''SUMMARY'', ''COMPLETE'', ''FIXES'', ''SESSION'', ''PROMPT'', ''STATUS'',
                       ''AUDIT'', ''VERIFICATION''}.
              \<exists>before mid after.
                filename_of (relPath file) = before @ mid @ after \<and> fold_case mid = word
         then [''Junk doc detected: '' @ filename_of (relPath file)] else [])) \<and>
   (\<exists>errors. validateFile_loose filepath (File content') = Inr errors \<and>
      filter is_junk_error errors =
        (if (\<exists>ending \<in> {''SUMMARY.MD'', ''COMPLETE.MD'', ''FIXES.MD'', ''STATUS.MD'',
                          ''_AUDIT.MD'', ''VERIFICATION.MD''}.
               \<exists>before. fold_case (filename_of filepath) = before @ ending) \<or>
            (\<exists>word \<in> {''SESSION'', ''PROMPT''}.
               \<exists>before mid. fold_case (filename_of filepath) = before @ word @ mid @ ''.MD'' \<and>
                 \<not> has_line_terminator mid)
         then [''Junk doc detected: '' @ filename_of filepath] else []))"
proof -
  have strict: "junk_error_strict file =
        (if \<exists>word \<in> {''SUMMARY'', ''COMPLETE'', ''FIXES'', ''SESSION'', ''PROMPT'', ''STATUS'',
                       ''AUDIT'', ''VERIFICATION''}.
              \<exists>before mid after.
                filename_of (relPath file) = before @ mid @ after \<and> fold_case mid = word
         then [''Junk doc detected: '' @ filename_of (relPath file)] else [])"
    unfolding junk_error_strict_def JUNK_PATTERNS_strict_iff ..
  have loose: "junk_error_loose filepath =
        (if (\<exists>ending \<in> {''SUMMARY.MD'', ''COMPLETE.MD'', ''FIXES.MD'', ''STATUS.MD'',
                          ''_AUDIT.MD'', ''VERIFICATION.MD''}.
               \<exists>before. fold_case (filename_of filepath) = before @ ending) \<or>
            (\<exists>word \<in> {''SESSION'', ''PROMPT''}.
               \<exists>before mid. fold_case (filename_of filepath) = before @ word @ mid @ ''.MD'' \<and>
                 \<not> has_line_terminator mid)
         then [''Junk doc detected: '' @ filename_of filepath] else [])"
    unfolding junk_error_loose_def JUNK_PATTERNS_loose_iff ..
  from junk_errors_strict [of "file" content] junk_errors_loose [of filepath content']
  show ?thesis unfolding strict loose by (rule conjI)
qed

text \<open>
  The claim as it was stated fails in the loose version: the name holds \<open>SUMMARY\<close> but does
  not end in \<open>SUMMARY.md\<close>, and no error is reported.
\<close>

theorem junk_filename_anywhere_counterexample:
  "filename_of ''guide/SUMMARY_2024.md'' = ''SUMMARY_2024.md'' \<and>
   sublist ''SUMMARY'' (fold_case ''SUMMARY_2024.md'') \<and>
   validateFile_loose ''guide/SUMMARY_2024.md'' (File ''# Notes'') = Inr []"
  by code_simp

text \<open>
  Claim C4, as amended. In the strict version, when the block that was extracted is not
  empty, a required field counts as present exactly when its name followed by a colon stands
  at the start of the block or right after a line terminator in it, and each of the fields
  \<open>title\<close> and \<open>description\<close> that is not present gets an error of its own. In the loose
  version the one required field \<open>title\<close> counts as present as soon as \<open>title:\<close> occurs
  anywhere in the block, also inside another key.
\<close>

theorem required_fields_checked:
  "(extractFrontmatter content = Some block \<and> block \<noteq> [] \<longrightarrow>
      validateFile_strict file (File content) =
        Inr (junk_error_strict file @
             concat (map (\<lambda>field.
                       if \<exists>before after. block = before @ (field @ '':'') @ after \<and>
                            (before = [] \<or> ends_with_line_terminator before)
                       then [] else [''Missing frontmatter: '' @ field])
                     [''title'', ''description'']))) \<and>
   (startsWith content' ''---'' \<and> at_index (split content' ''---'') 1 = Some block' \<longrightarrow>
      validateFile_loose filepath (File content') =
        Inr (junk_error_loose filepath @
             (if \<exists>before after. block' = before @ ''title:'' @ after
              then [] else [''Missing frontmatter: title''])))"
proof (intro conjI impI)
  assume "extractFrontmatter content = Some block \<and> block \<noteq> []"
  then show "validateFile_strict file (File content) =
        Inr (junk_error_strict file @
             concat (map (\<lambda>field.
                       if \<exists>before after. block = before @ (field @ '':'') @ after \<and>
                            (before = [] \<or> ends_with_line_terminator before)
                       then [] else [''Missing frontmatter: '' @ field])
                     [''title'', ''description'']))"
    by (simp add: validateFile_strict_File test_line_start_iff)
next
  assume a: "startsWith content' ''---'' \<and> at_index (split content' ''---'') 1 = Some block'"
  with split_frontmatter [of content']
  have "(case before_first ''---'' (drop 3 content') of Some b \<Rightarrow> b | None \<Rightarrow> drop 3 content') = block'"
    by simp
  with a show "validateFile_loose filepath (File content') =
        Inr (junk_error_loose filepath @
             (if \<exists>before after. block' = before @ ''title:'' @ after
              then [] else [''Missing frontmatter: title'']))"
    by (simp add: validateFile_loose_File includes_js_def sublist_def)
qed

theorem required_fields_checked_witness:
  "validateFile_strict \<lparr>fullPath = ''guide/a.md'', relPath = ''guide/a.md''\<rparr>
     (File ''---\<newline>subtitle: x\<newline>description: y\<newline>---\<newline>text'') =
     Inr [''Missing frontmatter: title''] \<and>
   validateFile_loose ''guide/a.md'' (File ''---\<newline>subtitle: x\<newline>---\<newline>text'') = Inr []"
proof -
  let ?file = "\<lparr>fullPath = ''guide/a.md'', relPath = ''guide/a.md''\<rparr>"
  let ?content = "''---\<newline>subtitle: x\<newline>description: y\<newline>---\<newline>text''"
  let ?block = "''subtitle: x\<newline>description: y''"
  let ?content' = "''---\<newline>subtitle: x\<newline>---\<newline>text''"
  let ?block' = "''\<newline>subtitle: x\<newline>''"
  have block: "extractFrontmatter ?content = Some ?block \<and> ?block \<noteq> []" by code_simp
  have block': "startsWith ?content' ''---'' \<and> at_index (split ?content' ''---'') 1 = Some ?block'"
    by code_simp
  have clean: "junk_error_strict ?file = []" "junk_error_loose ''guide/a.md'' = []"
    by code_simp+
  have title: "\<not> test_line_start ''title:'' ?block" by code_simp
  have description: "test_line_start ''description:'' ?block" by code_simp
  have sub: "sublist ''title:'' ?block'" by code_simp
  from title have t: "\<not> (\<exists>before after. ?block = before @ (''title'' @ '':'') @ after \<and>
      (before = [] \<or> ends_with_line_terminator before))"
    unfolding test_line_start_iff by simp
  from description have d: "\<exists>before after. ?block = before @ (''description'' @ '':'') @ after \<and>
      (before = [] \<or> ends_with_line_terminator before)"
    unfolding test_line_start_iff by simp
  from sub have s: "\<exists>before after. ?block' = before @ ''title:'' @ after"
    unfolding sublist_def .
  from required_fields_checked [of ?content ?block ?file ?content' ?block' "''guide/a.md''"]
    block block'
  have "validateFile_strict ?file (File ?content) =
        Inr (junk_error_strict ?file @
             concat (map (\<lambda>field.
                       if \<exists>before after. ?block = before @ (field @ '':'') @ after \<and>
                            (before = [] \<or> ends_with_line_terminator before)
                       then [] else [''Missing frontmatter: '' @ field])
                     [''title'', ''description'']))"
    and "validateFile_loose ''guide/a.md'' (File ?content') =
        Inr (junk_error_loose ''guide/a.md'' @
             (if \<exists>before after. ?block' = before @ ''title:'' @ after
              then [] else [''Missing frontmatter: title'']))"
    by blast+
  then show ?thesis
    unfolding clean using t d s by simp
qed

text \<open>
  The claim as it was stated fails: the loose version accepts \<open>title\<close> inside the key
  \<open>subtitle\<close> (the strict version reports it as missing on the same content), and the strict
  version answers a block that is present but empty with \<open>Missing frontmatter block\<close>
  instead of one error for each field.
\<close>

theorem required_fields_counterexample:
  "validateFile_loose ''guide/a.md'' (File ''---\<newline>subtitle: x\<newline>---\<newline>text'') = Inr [] \<and>
   validateFile_strict \<lparr>fullPath = ''guide/a.md'', relPath = ''guide/a.md''\<rparr>
     (File ''---\<newline>subtitle: x\<newline>---\<newline>text'') =
     Inr [''Missing frontmatter: title'', ''Missing frontmatter: description''] \<and>
   extractFrontmatter ''---\<newline>\<newline>---\<newline>text'' = Some [] \<and>
   validateFile_strict \<lparr>fullPath = ''guide/a.md'', relPath = ''guide/a.md''\<rparr>
     (File ''---\<newline>\<newline>---\<newline>text'') = Inr [''Missing frontmatter block'']"
  by code_simp

text \<open>
  Claim C5, as amended. For the content \<open>---\<close>, line feed, \<open>---\<close>, line feed, \<open>content\<close>
  and a file name that matches no junk pattern, the loose version reports exactly
  \<open>Missing frontmatter: title\<close>, and the strict version reports exactly
  \<open>Missing frontmatter block\<close>: its pattern wants a line feed before the closing hyphens,
  after the one that ends the opening line.
\<close>

theorem empty_block_example:
  "(\<not> list_ex (\<lambda>p. test p (filename_of filepath)) JUNK_PATTERNS_loose \<longrightarrow>
      validateFile_loose filepath (File ''---\<newline>---\<newline>content'') =
        Inr [''Missing frontmatter: title'']) \<and>
   (\<not> list_ex (\<lambda>p. test p (filename_of (relPath file))) JUNK_PATTERNS_strict \<longrightarrow>
      validateFile_strict file (File ''---\<newline>---\<newline>content'') =
        Inr [''Missing frontmatter block''])"
proof -
  have loose: "startsWith ''---\<newline>---\<newline>content'' ''---''"
    "before_first ''---'' (drop 3 ''---\<newline>---\<newline>content'') = Some ''\<newline>''"
    "\<not> includes_js ''\<newline>'' ''title:''"
    by code_simp+
  have strict: "extractFrontmatter ''---\<newline>---\<newline>content'' = None"
    by code_simp
  show ?thesis
    by (simp add: validateFile_loose_File validateFile_strict_File loose strict
          junk_error_loose_def junk_error_strict_def)
qed

theorem empty_block_example_witness:
  "validateFile_loose ''guide/a.md'' (File ''---\<newline>---\<newline>content'') =
     Inr [''Missing frontmatter: title''] \<and>
   validateFile_strict \<lparr>fullPath = ''guide/a.md'', relPath = ''guide/a.md''\<rparr>
     (File ''---\<newline>---\<newline>content'') = Inr [''Missing frontmatter block'']"
proof -
  have clean: "\<not> list_ex (\<lambda>p. test p (filename_of ''guide/a.md'')) JUNK_PATTERNS_loose"
    "\<not> list_ex (\<lambda>p. test p
        (filename_of (relPath \<lparr>fullPath = ''guide/a.md'', relPath = ''guide/a.md''\<rparr>)))
        JUNK_PATTERNS_strict"
    by code_simp+
  from empty_block_example
    [of "''guide/a.md''" "\<lparr>fullPath = ''guide/a.md'', relPath = ''guide/a.md''\<rparr>"] clean
  show ?thesis by blast
qed

text \<open>The claim as it was stated fails in the strict version.\<close>

theorem empty_block_strict_counterexample:
  "\<not> list_ex (\<lambda>p. test p (filename_of ''guide/intro.md'')) JUNK_PATTERNS_strict \<and>
   validateFile_strict \<lparr>fullPath = ''guide/intro.md'', relPath = ''guide/intro.md''\<rparr>
     (File ''---\<newline>---\<newline>content'') = Inr [''Missing frontmatter block'']"
  by code_simp

text \<open>
  Claim C10. In the loose version, for a content that starts with three hyphens, the text
  in which \<open>title:\<close> is looked for is what lies between these and the next three hyphens,
  wherever they stand; when there are no further three hyphens it is all the rest of the
  content, no error is reported for the missing end, and \<open>title:\<close> anywhere in the rest is
  enough.
\<close>

theorem loose_block_between_hyphens:
  "(content = ''---'' @ block @ ''---'' @ rest \<and>
    (\<forall>n<length block. \<not> prefix ''---'' (drop n (block @ ''---'' @ rest))) \<longrightarrow>
      validateFile_loose filepath (File content) =
        Inr (junk_error_loose filepath @
             (if sublist ''title:'' block then [] else [''Missing frontmatter: title'']))) \<and>
   (content' = ''---'' @ rest' \<and> \<not> sublist ''---'' rest' \<longrightarrow>
      validateFile_loose filepath (File content') =
        Inr (junk_error_loose filepath @
             (if sublist ''title:'' rest' then [] else [''Missing frontmatter: title''])))"
proof (intro conjI impI)
  assume a: "content = ''---'' @ block @ ''---'' @ rest \<and>
    (\<forall>n<length block. \<not> prefix ''---'' (drop n (block @ ''---'' @ rest)))"
  then have "before_first ''---'' (block @ ''---'' @ rest) = Some block"
    by (intro before_first_found) blast
  with a show "validateFile_loose filepath (File content) =
        Inr (junk_error_loose filepath @
             (if sublist ''title:'' block then [] else [''Missing frontmatter: title'']))"
    by (simp add: validateFile_loose_File startsWith_def includes_js_def)
next
  assume a: "content' = ''---'' @ rest' \<and> \<not> sublist ''---'' rest'"
  then have "before_first ''---'' rest' = None" by (simp add: before_first_None_iff)
  with a show "validateFile_loose filepath (File content') =
        Inr (junk_error_loose filepath @
             (if sublist ''title:'' rest' then [] else [''Missing frontmatter: title'']))"
    by (simp add: validateFile_loose_File startsWith_def includes_js_def)
qed

theorem loose_block_between_hyphens_witness:
  "validateFile_loose ''guide/a.md'' (File ''--- x --- title: late'') =
     Inr [''Missing frontmatter: title''] \<and>
   validateFile_loose ''guide/a.md'' (File ''---\<newline>no closing marker\<newline>body has title: here'') =
     Inr []"
proof -
  let ?block = "'' x ''" and ?rest = "'' title: late''"
  let ?rest' = "''\<newline>no closing marker\<newline>body has title: here''"
  have b: "before_first ''---'' (?block @ ''---'' @ ?rest) = Some ?block" by code_simp
  have first: "\<forall>n<length ?block. \<not> prefix ''---'' (drop n (?block @ ''---'' @ ?rest))"
    using before_first_earliest [OF b] by blast
  have none: "\<not> sublist ''---'' ?rest'" by code_simp
  have clean: "junk_error_loose ''guide/a.md'' = []" by code_simp
  have t: "\<not> sublist ''title:'' ?block" "sublist ''title:'' ?rest'" by code_simp+
  from loose_block_between_hyphens
    [of "''---'' @ ?block @ ''---'' @ ?rest" ?block ?rest "''guide/a.md''" "''---'' @ ?rest'" ?rest']
    first none
  have "validateFile_loose ''guide/a.md'' (File (''---'' @ ?block @ ''---'' @ ?rest)) =
        Inr (junk_error_loose ''guide/a.md'' @
             (if sublist ''title:'' ?block then [] else [''Missing frontmatter: title'']))"
    and "validateFile_loose ''guide/a.md'' (File (''---'' @ ?rest')) =
        Inr (junk_error_loose ''guide/a.md'' @
             (if sublist ''title:'' ?rest' then [] else [''Missing frontmatter: title'']))"
    by blast+
  then show ?thesis unfolding clean using t by simp
qed

section \<open>Facts about the traversal and the run\<close>

lemma findMarkdownFiles_strict_filter:
  "findMarkdownFiles_strict dir es =
     map (\<lambda>(p, nd). (\<lparr>fullPath = p, relPath = p\<rparr>, nd))
       (filter (\<lambda>(p, nd). shouldValidate p) (markdown_under dir es))"
  by (induction dir es rule: findMarkdownFiles_strict.induct)
     (simp_all add: relative_cwd_def Let_def)

lemma markdown_under_prefix:
  "dir \<noteq> ''.'' \<Longrightarrow> (p, nd) \<in> set (markdown_under dir es) \<Longrightarrow> \<exists>r. p = dir @ ''/'' @ r"
proof (induction dir es arbitrary: p nd rule: markdown_under.induct)
  case (1 dir)
  then show ?case by simp
next
  case (2 dir item es items)
  from "2.prems" consider
      (inside) "\<not> (item \<in> IGNORE_DIRS \<or> startsWith item ''.'')"
               "(p, nd) \<in> set (markdown_under (join_entry dir item) es)"
    | (later) "(p, nd) \<in> set (markdown_under dir items)"
    by (auto split: if_splits)
  then show ?case
  proof cases
    case inside
    have "dir @ ''/'' @ item \<noteq> ''.''" by (cases dir) auto
    with "2.prems"(1) have "join_entry dir item \<noteq> ''.''" by (simp add: join_entry_def)
    from "2.IH"(1) [OF inside(1) this inside(2)]
    obtain r where "p = join_entry dir item @ ''/'' @ r" by blast
    with "2.prems"(1) have "p = dir @ ''/'' @ (item @ ''/'' @ r)" by (simp add: join_entry_def)
    then show ?thesis by blast
  next
    case later
    from "2.IH"(2) [OF "2.prems"(1) later] show ?thesis .
  qed
next
  case (3 dir item c items)
  from "3.prems" consider
      (here) "p = join_entry dir item"
    | (later) "(p, nd) \<in> set (markdown_under dir items)"
    by (auto split: if_splits)
  then show ?case
  proof cases
    case here
    with "3.prems"(1) show ?thesis by (simp add: join_entry_def)
  next
    case later
    from "3.IH" [OF "3.prems"(1) later] show ?thesis .
  qed
qed

lemma at_index_0: "xs \<noteq> [] \<Longrightarrow> at_index xs 0 = Some (hd xs)"
  by (cases xs) (simp_all add: at_index_def)

lemma shouldValidate_under:
  assumes "CHR ''/'' \<notin> set item"
  shows "shouldValidate (item @ ''/'' @ r) = (item \<in> VALIDATION_ROOTS)"
proof -
  have "hd (split_js ''/'' [] (item @ CHR ''/'' # r)) = item"
    using hd_split_js [OF assms, of "[]" r] by simp
  then have "at_index (split (item @ ''/'' @ r) sep) 0 = Some item"
    by (simp add: split_def sep_def at_index_0 split_js_not_Nil)
  moreover have "item @ ''/'' @ r \<noteq> ''index.md''"
  proof
    assume "item @ ''/'' @ r = ''index.md''"
    then have "CHR ''/'' \<in> set ''index.md''" by (metis in_set_conv_decomp append_Cons)
    then show False by simp
  qed
  ultimately show ?thesis by (simp add: shouldValidate_def Let_def)
qed

lemma shouldValidate_top:
  assumes "CHR ''/'' \<notin> set item"
  shows "shouldValidate item = (item \<in> VALIDATION_ROOTS \<or> item = ''index.md'')"
proof -
  have "at_index (split item sep) 0 = Some item"
    by (simp add: split_def sep_def split_js_no_sep [OF assms] at_index_def)
  then show ?thesis by (simp add: shouldValidate_def Let_def)
qed

lemma roots_are_plain:
  "item \<in> VALIDATION_ROOTS \<Longrightarrow>
     \<not> endsWith item ''.md'' \<and> item \<notin> IGNORE_DIRS \<and> \<not> startsWith item ''.''"
  by (auto simp: VALIDATION_ROOTS_def IGNORE_DIRS_def endsWith_def startsWith_def suffix_def)

lemma index_is_markdown: "endsWith ''index.md'' ''.md''"
  by code_simp

lemma markdown_under_one:
  "markdown_under dir (entry # items) = markdown_under dir [entry] @ markdown_under dir items"
proof -
  obtain item nd where e: "entry = (item, nd)" by (cases entry)
  show ?thesis by (cases nd) (simp_all add: e)
qed

lemma allowed_of_entry:
  assumes "CHR ''/'' \<notin> set item"
  shows "filter (\<lambda>(p, nd). shouldValidate p) (markdown_under ''.'' [(item, nd)]) =
     (case nd of
        Dir es \<Rightarrow> if item \<in> VALIDATION_ROOTS then markdown_under item es else []
      | File c \<Rightarrow> if item = ''index.md'' then [(item, File c)] else [])"
proof (cases nd)
  case (File c)
  show ?thesis
  proof (cases "endsWith item ''.md''")
    case True
    with roots_are_plain [of item] have "item \<notin> VALIDATION_ROOTS" by blast
    with True show ?thesis
      by (simp add: File join_entry_def shouldValidate_top [OF assms])
  next
    case False
    with index_is_markdown have "item \<noteq> ''index.md''" by auto
    with False show ?thesis by (simp add: File)
  qed
next
  case (Dir es)
  show ?thesis
  proof (cases "item \<in> IGNORE_DIRS \<or> startsWith item ''.''")
    case True
    with roots_are_plain [of item] have "item \<notin> VALIDATION_ROOTS" by blast
    with True show ?thesis by (simp add: Dir)
  next
    case False
    then have "item \<noteq> ''.''" by (auto simp: startsWith_def)
    have all: "shouldValidate p = (item \<in> VALIDATION_ROOTS)"
      if "(p, n) \<in> set (markdown_under item es)" for p n
    proof -
      from markdown_under_prefix [OF \<open>item \<noteq> ''.''\<close> that]
      obtain r where "p = item @ ''/'' @ r" by blast
      then show ?thesis by (simp only: shouldValidate_under [OF assms])
    qed
    have "filter (\<lambda>(p, nd). shouldValidate p) (markdown_under item es) =
        filter (\<lambda>(p, nd). item \<in> VALIDATION_ROOTS) (markdown_under item es)"
      by (rule filter_cong) (auto simp: all)
    also have "\<dots> = (if item \<in> VALIDATION_ROOTS then markdown_under item es else [])"
      by simp
    finally show ?thesis using False by (simp add: Dir join_entry_def)
  qed
qed

lemma allowed_markdown_filter:
  "\<forall>(item, nd) \<in> set root. CHR ''/'' \<notin> set item \<Longrightarrow>
   filter (\<lambda>(p, nd). shouldValidate p) (markdown_under ''.'' root) = allowed_markdown root"
proof (induction root)
  case Nil
  show ?case by (simp add: allowed_markdown_def)
next
  case (Cons entry root)
  obtain item nd where e: "entry = (item, nd)" by (cases entry)
  from Cons.prems have plain: "CHR ''/'' \<notin> set item"
    and rest: "\<forall>(item, nd) \<in> set root. CHR ''/'' \<notin> set item"
    by (auto simp: e)
  have "filter (\<lambda>(p, nd). shouldValidate p) (markdown_under ''.'' (entry # root)) =
      filter (\<lambda>(p, nd). shouldValidate p) (markdown_under ''.'' [(item, nd)]) @
      filter (\<lambda>(p, nd). shouldValidate p) (markdown_under ''.'' root)"
    by (subst markdown_under_one) (simp add: e)
  also have "\<dots> = allowed_markdown (entry # root)"
    using Cons.IH [OF rest]
    by (simp only: allowed_of_entry [OF plain]) (simp add: allowed_markdown_def e)
  finally show ?case .
qed

lemma validate_loop_strict_headers:
  "FileHeader p \<in> set (case validate_loop_strict files out n of
                          Inl (e, shown) \<Rightarrow> shown | Inr (shown, k) \<Rightarrow> shown) \<Longrightarrow>
   FileHeader p \<in> set out \<or> p \<in> relPath ` fst ` set files"
proof (induction files arbitrary: out n)
  case Nil
  then show ?case by simp
next
  case (Cons entry files)
  obtain f nd where e: "entry = (f, nd)" by (cases entry)
  show ?case
  proof (cases "validateFile_strict f nd")
    case (Inl err)
    with Cons.prems show ?thesis by (simp add: e)
  next
    case (Inr errors)
    show ?thesis
    proof (cases "errors = []")
      case True
      with Inr Cons.prems Cons.IH [of out n] show ?thesis by (auto simp: e)
    next
      case False
      with Inr Cons.prems
        Cons.IH [of "out @ FileHeader (relPath f) # map ErrorLine errors" "n + length errors"]
      show ?thesis by (auto simp: e)
    qed
  qed
qed

lemma validate_strict_headers:
  "FileHeader p \<in> set (lines_of (validate_strict root)) \<Longrightarrow>
   p \<in> relPath ` fst ` set (findMarkdownFiles_strict ''.'' root)"
proof -
  assume h: "FileHeader p \<in> set (lines_of (validate_strict root))"
  let ?files = "findMarkdownFiles_strict ''.'' root"
  have "FileHeader p \<in> set (case validate_loop_strict ?files [] 0 of
                          Inl (e, shown) \<Rightarrow> shown | Inr (shown, k) \<Rightarrow> shown)"
    using h by (auto simp: validate_strict_def Let_def split: sum.splits prod.splits if_splits)
  from validate_loop_strict_headers [OF this] show ?thesis by simp
qed

text \<open>
  In the strict version only files reach \<open>validateFile\<close>, so no run ends with an exception:
  every file that is checked contributes all its errors, in order, and the exit status and the
  summary follow the total. The loose version does the same on every tree in which the
  traversal lists only files.
\<close>

lemma findMarkdownFiles_strict_files:
  "(f, nd) \<in> set (findMarkdownFiles_strict dir es) \<Longrightarrow> \<exists>c. nd = File c"
  by (induction dir es rule: findMarkdownFiles_strict.induct)
     (auto simp: Let_def split: if_splits)

lemma validateFile_strict_returns:
  "validateFile_strict f (File c) = Inr (projr (validateFile_strict f (File c)))"
  by (simp add: validateFile_strict_File)

lemma validateFile_loose_returns:
  "validateFile_loose p (File c) = Inr (projr (validateFile_loose p (File c)))"
  by (simp add: validateFile_loose_File)

lemma validate_loop_strict_all:
  "\<forall>(f, nd) \<in> set files. \<exists>c. nd = File c \<Longrightarrow>
   validate_loop_strict files out n =
     Inr (out @ concat (map (\<lambda>(f, nd). group_lines (relPath f) (projr (validateFile_strict f nd))) files),
          n + length (concat (map (\<lambda>(f, nd). projr (validateFile_strict f nd)) files)))"
proof (induction files arbitrary: out n)
  case Nil
  show ?case by simp
next
  case (Cons entry files)
  obtain f nd where e: "entry = (f, nd)" by (cases entry)
  from Cons.prems obtain c where nd: "nd = File c" by (auto simp: e)
  from Cons.prems have rest: "\<forall>(f, nd) \<in> set files. \<exists>c. nd = File c" by simp
  obtain errors where r: "validateFile_strict f (File c) = Inr errors"
    using validateFile_strict_returns by blast
  show ?case
    by (cases "errors = []") (simp_all add: e nd r Cons.IH [OF rest] group_lines_def)
qed

lemma validate_loop_loose_all:
  "\<forall>(p, nd) \<in> set files. \<exists>c. nd = File c \<Longrightarrow>
   validate_loop_loose files out n =
     Inr (out @ concat (map (\<lambda>(p, nd). group_lines p (projr (validateFile_loose p nd))) files),
          n + length (concat (map (\<lambda>(p, nd). projr (validateFile_loose p nd)) files)))"
proof (induction files arbitrary: out n)
  case Nil
  show ?case by simp
next
  case (Cons entry files)
  obtain p nd where e: "entry = (p, nd)" by (cases entry)
  from Cons.prems obtain c where nd: "nd = File c" by (auto simp: e)
  from Cons.prems have rest: "\<forall>(p, nd) \<in> set files. \<exists>c. nd = File c" by simp
  obtain errors where r: "validateFile_loose p (File c) = Inr errors"
    using validateFile_loose_returns by blast
  show ?case
    by (cases "errors = []") (simp_all add: e nd r Cons.IH [OF rest] group_lines_def)
qed

lemma validate_strict_collects_all:
  "validate_strict root =
     (let files = findMarkdownFiles_strict ''.'' root;
          errors = concat (map (\<lambda>(f, nd). projr (validateFile_strict f nd)) files)
      in Exited (if errors = [] then 0 else 1)
           (concat (map (\<lambda>(f, nd). group_lines (relPath f) (projr (validateFile_strict f nd))) files)
            @ [if errors = [] then OkSummary else FailedSummary (length errors)]))"
proof -
  have "\<forall>(f, nd) \<in> set (findMarkdownFiles_strict ''.'' root). \<exists>c. nd = File c"
    using findMarkdownFiles_strict_files by blast
  from validate_loop_strict_all [OF this, of "[]" 0] show ?thesis
    by (simp add: validate_strict_def Let_def)
qed

lemma validate_loose_collects_all:
  "\<forall>(p, nd) \<in> set (findMarkdownFiles_loose ''.'' root). \<exists>c. nd = File c \<Longrightarrow>
   validate_loose root =
     (let files = findMarkdownFiles_loose ''.'' root;
          errors = concat (map (\<lambda>(p, nd). projr (validateFile_loose p nd)) files)
      in Exited (if errors = [] then 0 else 1)
           (concat (map (\<lambda>(p, nd). group_lines p (projr (validateFile_loose p nd))) files)
            @ [if errors = [] then OkSummary else FailedSummary (length errors)]))"
proof -
  assume "\<forall>(p, nd) \<in> set (findMarkdownFiles_loose ''.'' root). \<exists>c. nd = File c"
  from validate_loop_loose_all [OF this, of "[]" 0] show ?thesis
    by (simp add: validate_loose_def Let_def)
qed

section \<open>The claims about the traversal and the run\<close>

text \<open>
  Claim C6, as amended. In the strict version, for a tree whose top-level names hold no
  slash, the files that are checked are, among the markdown files the traversal comes across,
  exactly those under a top-level directory \<open>guide\<close>, \<open>api\<close> or \<open>components\<close> and the
  top-level file \<open>index.md\<close>; a header with errors is printed for no other file.
\<close>

theorem only_allowed_roots_checked:
  assumes "\<forall>(item, nd) \<in> set root. CHR ''/'' \<notin> set item"
  shows "map (\<lambda>(f, nd). (relPath f, nd)) (findMarkdownFiles_strict ''.'' root) =
           filter (\<lambda>(p, nd). (p, nd) \<in> set (allowed_markdown root)) (markdown_under ''.'' root) \<and>
         map (\<lambda>(f, nd). (relPath f, nd)) (findMarkdownFiles_strict ''.'' root) =
           allowed_markdown root \<and>
         (\<forall>p. FileHeader p \<in> set (lines_of (validate_strict root)) \<longrightarrow>
              p \<in> fst ` set (allowed_markdown root))"
proof -
  have checked: "map (\<lambda>(f, nd). (relPath f, nd)) (findMarkdownFiles_strict ''.'' root) =
      allowed_markdown root"
    unfolding findMarkdownFiles_strict_filter allowed_markdown_filter [OF assms]
    by (simp add: comp_def case_prod_beta)
  have "filter (\<lambda>(p, nd). (p, nd) \<in> set (allowed_markdown root)) (markdown_under ''.'' root) =
      filter (\<lambda>(p, nd). shouldValidate p) (markdown_under ''.'' root)"
  proof (rule filter_cong [OF refl])
    fix x assume x: "x \<in> set (markdown_under ''.'' root)"
    obtain p nd where xp: "x = (p, nd)" by (cases x)
    have "(p, nd) \<in> set (allowed_markdown root) \<longleftrightarrow> shouldValidate p"
      using x unfolding allowed_markdown_filter [OF assms, symmetric] xp by auto
    then show "(case x of (p, nd) \<Rightarrow> (p, nd) \<in> set (allowed_markdown root)) =
        (case x of (p, nd) \<Rightarrow> shouldValidate p)"
      by (simp add: xp)
  qed
  with checked allowed_markdown_filter [OF assms]
  have discovered: "map (\<lambda>(f, nd). (relPath f, nd)) (findMarkdownFiles_strict ''.'' root) =
      filter (\<lambda>(p, nd). (p, nd) \<in> set (allowed_markdown root)) (markdown_under ''.'' root)"
    by simp
  have "p \<in> fst ` set (allowed_markdown root)"
    if "FileHeader p \<in> set (lines_of (validate_strict root))" for p
  proof -
    from validate_strict_headers [OF that]
    have "p \<in> fst ` set (map (\<lambda>(f, nd). (relPath f, nd)) (findMarkdownFiles_strict ''.'' root))"
      by force
    then show ?thesis unfolding checked .
  qed
  with checked discovered show ?thesis by blast
qed

theorem only_allowed_roots_checked_witness:
  "map (\<lambda>(f, nd). relPath f)
     (findMarkdownFiles_strict ''.''
        [(''guide'', Dir [(''a.md'', File ''x'')]),
         (''notes'', Dir [(''SUMMARY.md'', File '''')]),
         (''index.md'', File ''''),
         (''README.md'', File '''')]) = [''guide/a.md'', ''index.md''] \<and>
   FileHeader ''notes/SUMMARY.md'' \<notin>
     set (lines_of (validate_strict
        [(''guide'', Dir [(''a.md'', File ''x'')]),
         (''notes'', Dir [(''SUMMARY.md'', File '''')]),
         (''index.md'', File ''''),
         (''README.md'', File '''')]))"
proof -
  let ?root = "[(''guide'', Dir [(''a.md'', File ''x'')]),
         (''notes'', Dir [(''SUMMARY.md'', File '''')]),
         (''index.md'', File ''''),
         (''README.md'', File '''')]"
  have plain: "\<forall>(item, nd) \<in> set ?root. CHR ''/'' \<notin> set item" by simp
  have allowed: "allowed_markdown ?root = [(''guide/a.md'', File ''x''), (''index.md'', File '''')]"
    by code_simp
  from only_allowed_roots_checked [OF plain]
  have checked: "map (\<lambda>(f, nd). (relPath f, nd)) (findMarkdownFiles_strict ''.'' ?root) =
      allowed_markdown ?root"
    and headers: "\<forall>p. FileHeader p \<in> set (lines_of (validate_strict ?root)) \<longrightarrow>
              p \<in> fst ` set (allowed_markdown ?root)"
    by blast+
  have "map (\<lambda>(f, nd). relPath f) (findMarkdownFiles_strict ''.'' ?root) =
      map fst (map (\<lambda>(f, nd). (relPath f, nd)) (findMarkdownFiles_strict ''.'' ?root))"
    by (simp add: comp_def case_prod_beta)
  also have "\<dots> = [''guide/a.md'', ''index.md'']"
    unfolding checked allowed by simp
  finally have first: "map (\<lambda>(f, nd). relPath f) (findMarkdownFiles_strict ''.'' ?root) =
      [''guide/a.md'', ''index.md'']" .
  have "''notes/SUMMARY.md'' \<notin> fst ` set (allowed_markdown ?root)"
    unfolding allowed by simp
  with headers have "FileHeader ''notes/SUMMARY.md'' \<notin> set (lines_of (validate_strict ?root))"
    by blast
  with first show ?thesis by blast
qed

text \<open>
  The claim as it was stated fails in the loose version: a file under the top-level
  directory \<open>notes\<close> is checked and its error is reported.
\<close>

theorem loose_checks_every_root_counterexample:
  "validate_loose [(''notes'', Dir [(''SUMMARY.md'', File ''text'')])] =
     Exited 1 [FileHeader ''notes/SUMMARY.md'', ErrorLine ''Junk doc detected: SUMMARY.md'',
               FailedSummary 1]"
  by code_simp

text \<open>
  Claim C8 at the input where the loose version breaks it. A hidden directory whose name ends
  in \<open>.md\<close> is listed by the loose traversal as a markdown file; reading it throws, so the
  run ends with an uncaught exception: no summary line is printed and the process does not
  exit with status 0, although no validation error was found. The strict version passes the
  same tree with the summary for success.
\<close>

theorem validate_loose_hidden_directory:
  "findMarkdownFiles_loose ''.'' [(''.notes.md'', Dir [])] = [(''.notes.md'', Dir [])] \<and>
   validate_loose [(''.notes.md'', Dir [])] = Uncaught EISDIR [] \<and>
   validate_strict [(''.notes.md'', Dir [])] = Exited 0 [OkSummary]"
  by code_simp

section \<open>Facts about paths\<close>

text \<open>
  On a directory path made of plain names and the name of a directory entry, \<open>path.join\<close>
  has nothing to normalise but a leading \<open>./\<close>: it is \<open>join_entry\<close> there, and the result
  is again a path made of plain names.
\<close>

lemma split_js_piece:
  "c \<notin> set w \<Longrightarrow> split_js [c] cur (w @ c # rest) = (rev cur @ w) # split_js [c] [] rest"
  by (induction w arbitrary: cur) auto

lemma split_with_slashes:
  "segs \<noteq> [] \<Longrightarrow> list_all plain_name segs \<Longrightarrow> split (with_slashes segs) ''/'' = segs"
proof (induction segs rule: with_slashes.induct)
  case 1
  then show ?case by simp
next
  case (2 seg)
  then show ?case by (simp add: split_def split_js_no_sep plain_name_def)
next
  case (3 seg "next" segs)
  then have "CHR ''/'' \<notin> set seg" and "split (with_slashes (next # segs)) ''/'' = next # segs"
    by (simp_all add: plain_name_def)
  then show ?case using split_js_piece [of "CHR ''/''" seg "[]" "with_slashes (next # segs)"]
    by (simp add: split_def)
qed

lemma normalize_segments_plain:
  "list_all plain_name segs \<Longrightarrow> normalize_segments allowAboveRoot res segs = rev res @ segs"
  by (induction segs arbitrary: res) (auto simp: plain_name_def)

lemma with_slashes_ends:
  "segs \<noteq> [] \<Longrightarrow> list_all plain_name segs \<Longrightarrow>
   with_slashes segs \<noteq> [] \<and> hd (with_slashes segs) \<noteq> CHR ''/'' \<and> last (with_slashes segs) \<noteq> CHR ''/''"
proof (induction segs rule: with_slashes.induct)
  case 1
  then show ?case by simp
next
  case (2 seg)
  then have ne: "seg \<noteq> []" and ns: "CHR ''/'' \<notin> set seg" by (simp_all add: plain_name_def)
  from ne ns have "hd seg \<noteq> CHR ''/''" "last seg \<noteq> CHR ''/''"
    by (metis hd_in_set, metis last_in_set)
  with ne show ?case by simp
next
  case (3 seg "next" segs)
  then have ne: "seg \<noteq> []" and ns: "CHR ''/'' \<notin> set seg" by (simp_all add: plain_name_def)
  from ne ns have h: "hd seg \<noteq> CHR ''/''" by (metis hd_in_set)
  from 3 have r: "with_slashes (next # segs) \<noteq> []"
    "last (with_slashes (next # segs)) \<noteq> CHR ''/''" by simp_all
  from ne ns h r show ?case by (auto simp: hd_append)
qed

lemma normalize_with_slashes:
  assumes "segs \<noteq> []" and "list_all plain_name segs"
  shows "normalize (with_slashes segs) = with_slashes segs"
  using with_slashes_ends [OF assms]
  by (simp add: normalize_def Let_def split_with_slashes [OF assms] normalize_segments_plain [OF assms(2)])

lemma with_slashes_snoc:
  "segs \<noteq> [] \<Longrightarrow> with_slashes (segs @ [item]) = with_slashes segs @ ''/'' @ item"
  by (induction segs rule: with_slashes.induct) simp_all

lemma join_entry_here: "plain_name item \<Longrightarrow> join ''.'' item = join_entry ''.'' item"
proof -
  assume p: "plain_name item"
  then have ne: "item \<noteq> []" and ns: "CHR ''/'' \<notin> set item"
    and nd: "item \<noteq> ''.''" "item \<noteq> ''..''"
    by (simp_all add: plain_name_def)
  from ne ns have l: "last item \<noteq> CHR ''/''" by (metis last_in_set)
  have "split (''./'' @ item) ''/'' = [''.'', item]"
    using split_js_piece [of "CHR ''/''" "''.''" "[]" item] ns
    by (simp add: split_def split_js_no_sep)
  then have "normalize (''./'' @ item) = item"
    using ne l nd by (simp add: normalize_def Let_def)
  with ne show ?thesis by (simp add: join_def join_entry_def)
qed

lemma join_entry_below:
  assumes "segs \<noteq> []" and "list_all plain_name segs" and "plain_name item"
  shows "join (with_slashes segs) item = join_entry (with_slashes segs) item \<and>
         join_entry (with_slashes segs) item = with_slashes (segs @ [item])"
proof -
  from assms have all: "list_all plain_name (segs @ [item])" by simp
  have ne: "segs @ [item] \<noteq> []" by simp
  from with_slashes_ends [OF assms(1,2)] have d: "with_slashes segs \<noteq> []" by simp
  from assms(3) have i: "item \<noteq> []" by (simp add: plain_name_def)
  have nodot: "with_slashes segs \<noteq> ''.''"
  proof
    assume dot: "with_slashes segs = ''.''"
    from split_with_slashes [OF assms(1,2)] have "segs = split ''.'' ''/''" by (simp add: dot)
    also have "\<dots> = [''.'']" by code_simp
    finally show False using assms(2) by (simp add: plain_name_def)
  qed
  have "join (with_slashes segs) item = normalize (with_slashes (segs @ [item]))"
    using d i by (simp add: join_def with_slashes_snoc [OF assms(1)])
  also have "\<dots> = with_slashes (segs @ [item])" by (rule normalize_with_slashes [OF ne all])
  finally show ?thesis using nodot by (simp add: join_entry_def with_slashes_snoc [OF assms(1)])
qed

section \<open>Facts about the Sync Engine\<close>

subsection \<open>The blocked patterns\<close>

lemma isJunkDoc_iff:
  "isJunkDoc source \<longleftrightarrow>
     (\<exists>word \<in> {''SUMMARY'', ''COMPLETE'', ''FIXES'', ''SESSION'', ''PROMPT'', ''STATUS'', ''AUDIT''}.
        \<exists>before mid after. source = before @ mid @ after \<and> fold_case mid = word)"
proof -
  have w: "fold_case ''SUMMARY'' = ''SUMMARY''" "fold_case ''COMPLETE'' = ''COMPLETE''"
    "fold_case ''FIXES'' = ''FIXES''" "fold_case ''SESSION'' = ''SESSION''"
    "fold_case ''PROMPT'' = ''PROMPT''" "fold_case ''STATUS'' = ''STATUS''"
    "fold_case ''AUDIT'' = ''AUDIT''"
    by code_simp+
  have t: "test (Anywhere word) source \<longleftrightarrow>
      (\<exists>before mid after. source = before @ mid @ after \<and> fold_case mid = fold_case word)" for word
    unfolding test.simps fold_case_def by (rule sublist_map_iff)
  show ?thesis
    unfolding isJunkDoc_def BLOCKED_PATTERNS_def list_ex_Cons_iff list_ex_Nil_iff t w by simp
qed

text \<open>
  The file name is the end of the path, so a path whose file name matches a blocked pattern
  matches it as well: looking at the whole path blocks at least what looking at the name
  would block.
\<close>

lemma last_split_js_suffix: "suffix (last (split_js [c] cur s)) (rev cur @ s)"
proof (induction s arbitrary: cur)
  case Nil
  show ?case by simp
next
  case (Cons x s)
  show ?case
  proof (cases "x = c")
    case True
    have "suffix (last (split_js [c] [] s)) s" using Cons.IH [of "[]"] by simp
    then have "suffix (last (split_js [c] [] s)) (rev cur @ x # s)"
      by (metis suffix_append suffix_Cons)
    with True show ?thesis by (simp add: split_js_not_Nil)
  next
    case False
    with Cons.IH [of "x # cur"] show ?thesis by simp
  qed
qed

lemma filename_of_suffix: "suffix (filename_of p) p"
  using last_split_js_suffix [of "CHR ''/''" "[]" p] by (simp add: filename_of_last split_def)

lemma isJunkDoc_filename: "isJunkDoc (filename_of p) \<Longrightarrow> isJunkDoc p"
proof -
  assume "isJunkDoc (filename_of p)"
  then obtain pattern where p: "pattern \<in> set BLOCKED_PATTERNS" and t: "test pattern (filename_of p)"
    by (auto simp: isJunkDoc_def list_ex_iff)
  from p obtain w where w: "pattern = Anywhere w" by (auto simp: BLOCKED_PATTERNS_def)
  from filename_of_suffix obtain d where "p = d @ filename_of p" by (auto simp: suffix_def)
  then have "fold_case p = fold_case d @ fold_case (filename_of p)"
    by (metis fold_case_def map_append)
  moreover from t have "sublist (fold_case w) (fold_case (filename_of p))" by (simp add: w)
  ultimately have "sublist (fold_case w) (fold_case p)"
    by (metis sublist_append_leftI sublist_order.order_trans)
  then have "test pattern p" by (simp add: w)
  with p show "isJunkDoc p" unfolding isJunkDoc_def list_ex_iff by blast
qed

text \<open>
  None of the seven source paths of the script matches a blocked pattern, in a directory or
  in the name: with the mapping as it is written, no entry is blocked.
\<close>

lemma approved_sources_pass:
  "list_all (\<lambda>(source, dest). \<not> isJunkDoc source) APPROVED_SOURCES"
proof -
  have folded:
    "fold_case ''/mnt/development/README.md'' = ''/MNT/DEVELOPMENT/README.MD''"
    "fold_case ''/mnt/development/AI_MASTER_GUIDE.md'' = ''/MNT/DEVELOPMENT/AI_MASTER_GUIDE.MD''"
    "fold_case ''/mnt/development/CODING_GUIDELINES.md'' = ''/MNT/DEVELOPMENT/CODING_GUIDELINES.MD''"
    "fold_case ''/mnt/development/TYPE_SAFETY_RULES.md'' = ''/MNT/DEVELOPMENT/TYPE_SAFETY_RULES.MD''"
    "fold_case ''/mnt/development/I18N_AND_ACCESSIBILITY_REQUIREMENTS.md'' =
       ''/MNT/DEVELOPMENT/I18N_AND_ACCESSIBILITY_REQUIREMENTS.MD''"
    "fold_case ''/mnt/development/DATABASE_CONNECTION_GUIDE.md'' =
       ''/MNT/DEVELOPMENT/DATABASE_CONNECTION_GUIDE.MD''"
    "fold_case ''/mnt/development/CLOUDFLARE_MANAGEMENT_GUIDE.md'' =
       ''/MNT/DEVELOPMENT/CLOUDFLARE_MANAGEMENT_GUIDE.MD''"
    "fold_case ''SUMMARY'' = ''SUMMARY''" "fold_case ''COMPLETE'' = ''COMPLETE''"
    "fold_case ''FIXES'' = ''FIXES''" "fold_case ''SESSION'' = ''SESSION''"
    "fold_case ''PROMPT'' = ''PROMPT''" "fold_case ''STATUS'' = ''STATUS''"
    "fold_case ''AUDIT'' = ''AUDIT''"
    by code_simp+
  show ?thesis
    unfolding APPROVED_SOURCES_def list.pred_inject prod.case isJunkDoc_def
      BLOCKED_PATTERNS_def list_ex_Cons_iff list_ex_Nil_iff test.simps folded
    by code_simp
qed

subsection \<open>The loop, whatever the file system\<close>

lemma sync_loop_append:
  "sync_loop fs cwd (xs @ ys) st =
     (case sync_loop fs cwd xs st of Inl e \<Rightarrow> Inl e | Inr st' \<Rightarrow> sync_loop fs cwd ys st')"
proof (induction xs arbitrary: st)
  case Nil
  show ?case by simp
next
  case (Cons entry xs)
  obtain source dest where e: "entry = (source, dest)" by (cases entry)
  show ?case by (simp add: e Cons.IH Let_def split: sum.split)
qed

lemma sync_one_cases:
  assumes "sync_loop fs cwd [(source, dest)] st = Inr st'"
  obtains
    (blocked) "isJunkDoc source"
      "st' = st\<lparr>printed := printed st @ [Blocked source], blocked := blocked st + 1\<rparr>"
  | (missing) "\<not> isJunkDoc source" "\<not> fs_existsSync fs (disk st) source" "st' = st"
  | (copied) content written where "\<not> isJunkDoc source" "fs_existsSync fs (disk st) source"
      "fs_readFileSync fs (disk st) source = Inr content"
      "fs_writeFileSync fs (disk st) (join cwd dest) content = Inr written"
      "st' = st\<lparr>disk := written, printed := printed st @ [Synced source dest],
                 synced := synced st + 1\<rparr>"
  using assms by (auto simp: Let_def split: if_splits sum.splits)

lemma sync_one_counts:
  assumes "sync_loop fs cwd [(source, dest)] st = Inr st'"
  shows "blocked st' = blocked st + (if isJunkDoc source then 1 else 0)"
    and "synced st' =
      synced st + (if \<not> isJunkDoc source \<and> fs_existsSync fs (disk st) source then 1 else 0)"
    and "Blocked s \<in> set (printed st') \<longleftrightarrow>
      Blocked s \<in> set (printed st) \<or> (s = source \<and> isJunkDoc source)"
  using assms by (cases rule: sync_one_cases; auto)+

lemma sync_loop_blocked:
  "sync_loop fs cwd entries st = Inr st' \<Longrightarrow>
   blocked st' = blocked st + length (filter (\<lambda>(source, dest). isJunkDoc source) entries)"
proof (induction entries arbitrary: st' rule: rev_induct)
  case Nil
  then show ?case by simp
next
  case (snoc entry entries)
  obtain source dest where e: "entry = (source, dest)" by (cases entry)
  from snoc.prems obtain mid where mid: "sync_loop fs cwd entries st = Inr mid"
    and last: "sync_loop fs cwd [(source, dest)] mid = Inr st'"
    by (auto simp: sync_loop_append e split: sum.splits)
  from snoc.IH [OF mid] sync_one_counts(1) [OF last] show ?case by (simp add: e)
qed

lemma sync_loop_blocked_lines:
  "sync_loop fs cwd entries st = Inr st' \<Longrightarrow>
   Blocked s \<in> set (printed st') \<longleftrightarrow>
     Blocked s \<in> set (printed st) \<or> (s \<in> fst ` set entries \<and> isJunkDoc s)"
proof (induction entries arbitrary: st' rule: rev_induct)
  case Nil
  then show ?case by simp
next
  case (snoc entry entries)
  obtain source dest where e: "entry = (source, dest)" by (cases entry)
  from snoc.prems obtain mid where mid: "sync_loop fs cwd entries st = Inr mid"
    and last: "sync_loop fs cwd [(source, dest)] mid = Inr st'"
    by (auto simp: sync_loop_append e split: sum.splits)
  from snoc.IH [OF mid] sync_one_counts(3) [OF last] show ?case by (auto simp: e)
qed



subsection \<open>The loop on directories and files\<close>

text \<open>
  A write changes no directory, so a path resolves after it as it did before; what a write
  put at a place is what a read of the same path returns.
\<close>

lemma walk_directories:
  assumes d: "directories v' = directories v"
  shows "(walk v' here names = Inr place) = (walk v here names = Inr place)"
proof (induction names arbitrary: here)
  case Nil
  show ?case by simp
next
  case (Cons name names)
  show ?case
    by (cases "here \<in> directories v") (simp_all add: d Cons.IH)
qed

lemma locate_directories:
  assumes "directories v' = directories v"
  shows "(locate v' cwd p = Inr place) = (locate v cwd p = Inr place)"
  unfolding locate_def using walk_directories [OF assms] by simp

lemma locate_written:
  "(locate (v\<lparr>contents := c\<rparr>) cwd p = Inr place) = (locate v cwd p = Inr place)"
  by (rule locate_directories) simp

lemma writeFileSync_Inr:
  "writeFileSync v cwd p content = Inr v' \<longleftrightarrow>
     (\<exists>place. locate v cwd p = Inr place \<and> place \<notin> directories v \<and>
        v' = v\<lparr>contents := (contents v)(place \<mapsto> content)\<rparr>)"
  by (auto simp: writeFileSync_def split: sum.splits)

lemma writeFileSync_Inl:
  "(\<exists>e. writeFileSync v cwd p content = Inl e) \<longleftrightarrow> \<not> can_write v cwd p"
  by (auto simp: writeFileSync_def can_write_def split: sum.splits)

lemma readFileSync_path_existing:
  "existsSync v cwd p \<Longrightarrow> \<not> is_directory v cwd p \<Longrightarrow> \<exists>content. readFileSync_path v cwd p = Inr content"
  by (auto simp: existsSync_def is_directory_def readFileSync_path_def split: sum.splits)

lemma readFileSync_path_directory:
  "is_directory v cwd p \<Longrightarrow> readFileSync_path v cwd p = Inl EISDIR"
  by (auto simp: is_directory_def readFileSync_path_def split: sum.splits)

lemma readFileSync_path_written:
  assumes "locate v cwd p = Inr place" and "place \<notin> directories v"
  shows "readFileSync_path (v\<lparr>contents := (contents v)(place \<mapsto> content)\<rparr>) cwd p = Inr content"
proof -
  have "locate (v\<lparr>contents := (contents v)(place \<mapsto> content)\<rparr>) cwd p = Inr place"
    using assms(1) by (simp add: locate_written)
  with assms(2) show ?thesis by (simp add: readFileSync_path_def)
qed

lemma existsSync_written:
  assumes "locate v cwd q = Inr place" and "locate v cwd p \<noteq> Inr place"
  shows "existsSync (v\<lparr>contents := (contents v)(place \<mapsto> content)\<rparr>) cwd p = existsSync v cwd p"
proof (cases "locate v cwd p")
  case (Inl e)
  then have "\<And>x. locate (v\<lparr>contents := (contents v)(place \<mapsto> content)\<rparr>) cwd p \<noteq> Inr x"
    by (simp add: locate_written)
  then show ?thesis using Inl by (auto simp: existsSync_def split: sum.splits)
next
  case (Inr other)
  then have "locate (v\<lparr>contents := (contents v)(place \<mapsto> content)\<rparr>) cwd p = Inr other"
    by (simp add: locate_written)
  moreover from Inr assms(2) have "other \<noteq> place" by simp
  ultimately show ?thesis using Inr by (simp add: existsSync_def)
qed

lemma same_place_directories:
  "directories v' = directories v \<Longrightarrow> same_place v' cwd p q = same_place v cwd p q"
proof -
  assume d: "directories v' = directories v"
  show ?thesis
  proof (cases "locate v cwd p")
    case (Inl e)
    then have "\<And>x. locate v' cwd p \<noteq> Inr x" by (simp add: locate_directories [OF d, of cwd p])
    then show ?thesis using Inl by (auto simp: same_place_def split: sum.splits)
  next
    case (Inr place)
    then have a: "locate v' cwd p = Inr place" by (simp add: locate_directories [OF d, of cwd p])
    have b: "(locate v' cwd q = Inr place) = (locate v cwd q = Inr place)"
      by (rule locate_directories [OF d])
    show ?thesis unfolding same_place_def a Inr using b by simp
  qed
qed

lemma posix_one_missing:
  "\<not> isJunkDoc source \<Longrightarrow> \<not> existsSync (disk st) cwd source \<Longrightarrow>
   sync_loop (posix cwd) cwd [(source, dest)] st = Inr st"
  by (simp add: posix_def)

lemma posix_one_copy:
  assumes "\<not> isJunkDoc source" and "existsSync (disk st) cwd source"
    and "\<not> is_directory (disk st) cwd source" and "can_write (disk st) cwd (join cwd dest)"
  shows "\<exists>content place.
      readFileSync_path (disk st) cwd source = Inr content \<and>
      locate (disk st) cwd (join cwd dest) = Inr place \<and>
      place \<notin> directories (disk st) \<and>
      sync_loop (posix cwd) cwd [(source, dest)] st =
        Inr (st\<lparr>disk := (disk st)\<lparr>contents := (contents (disk st))(place \<mapsto> content)\<rparr>,
               printed := printed st @ [Synced source dest],
               synced := synced st + 1\<rparr>)"
proof -
  from readFileSync_path_existing [OF assms(2,3)]
  obtain content where r: "readFileSync_path (disk st) cwd source = Inr content" by blast
  from assms(4) obtain place where l: "locate (disk st) cwd (join cwd dest) = Inr place"
    and nd: "place \<notin> directories (disk st)"
    by (auto simp: can_write_def split: sum.splits)
  then have "writeFileSync (disk st) cwd (join cwd dest) content =
      Inr ((disk st)\<lparr>contents := (contents (disk st))(place \<mapsto> content)\<rparr>)"
    by (simp add: writeFileSync_def)
  with assms(1,2) r l nd show ?thesis by (simp add: posix_def Let_def)
qed

lemma posix_one_raises:
  assumes "\<not> isJunkDoc source" and "existsSync (disk st) cwd source"
    and "is_directory (disk st) cwd source \<or> \<not> can_write (disk st) cwd (join cwd dest)"
  shows "\<exists>e. sync_loop (posix cwd) cwd [(source, dest)] st = Inl e"
proof (cases "readFileSync_path (disk st) cwd source")
  case (Inl e)
  with assms(1,2) show ?thesis by (simp add: posix_def)
next
  case (Inr content)
  with readFileSync_path_directory have "\<not> is_directory (disk st) cwd source" by force
  with assms(3) have "\<not> can_write (disk st) cwd (join cwd dest)" by blast
  then obtain e where "writeFileSync (disk st) cwd (join cwd dest) content = Inl e"
    using writeFileSync_Inl [of "disk st" cwd "join cwd dest" content] by blast
  with assms(1,2) Inr show ?thesis by (simp add: posix_def Let_def)
qed

lemma sync_from_snoc:
  "sync_from cwd (before @ [entry]) v =
     (case sync_from cwd before v of
        Inl e \<Rightarrow> Inl e
      | Inr st \<Rightarrow> sync_loop (posix cwd) cwd [entry] st)"
  by (simp add: sync_from_def sync_loop_append)

lemma sync_from_prefix:
  "sync_from cwd (xs @ ys) v = Inr st \<Longrightarrow> \<exists>st'. sync_from cwd xs v = Inr st'"
  by (auto simp: sync_from_def sync_loop_append split: sum.splits)

lemma state_after_returned: "sync_from cwd entries v = Inr st \<Longrightarrow> state_after cwd entries v = st"
  by (simp add: state_after_def)

lemma syncDocs_posix_Inr:
  "syncDocs_posix cwd entries v = Inr st \<Longrightarrow>
   \<exists>st0. sync_from cwd entries v = Inr st0 \<and> synced st = synced st0 \<and> disk st = disk st0"
  by (auto simp: syncDocs_posix_def sync_run_def sync_from_def split: sum.splits)

text \<open>One entry returns exactly when nothing in it throws.\<close>

lemma posix_one_returns:
  "(\<exists>st1. sync_loop (posix cwd) cwd [(source, dest)] st = Inr st1) \<longleftrightarrow>
     isJunkDoc source \<or> \<not> existsSync (disk st) cwd source \<or>
     (\<not> is_directory (disk st) cwd source \<and> can_write (disk st) cwd (join cwd dest))"
proof (cases "isJunkDoc source")
  case True
  then show ?thesis by simp
next
  case clean: False
  show ?thesis
  proof (cases "existsSync (disk st) cwd source")
    case False
    with clean posix_one_missing [OF clean False, of dest] show ?thesis by simp
  next
    case there: True
    show ?thesis
    proof (cases "\<not> is_directory (disk st) cwd source \<and> can_write (disk st) cwd (join cwd dest)")
      case True
      with posix_one_copy [OF clean there, of dest] clean there show ?thesis by auto
    next
      case False
      then have "is_directory (disk st) cwd source \<or> \<not> can_write (disk st) cwd (join cwd dest)"
        by blast
      from posix_one_raises [OF clean there this] clean there False show ?thesis by auto
    qed
  qed
qed

lemma sync_from_returns:
  "(\<exists>st. sync_from cwd entries v = Inr st) \<longleftrightarrow>
     list_all (\<lambda>i. isJunkDoc (fst (entries ! i)) \<or>
                  \<not> existsSync (disk (state_after cwd (take i entries) v)) cwd (fst (entries ! i)) \<or>
                  (\<not> is_directory (disk (state_after cwd (take i entries) v)) cwd (fst (entries ! i)) \<and>
                   can_write (disk (state_after cwd (take i entries) v)) cwd
                     (join cwd (snd (entries ! i)))))
        [0..<length entries]"
proof (induction entries rule: rev_induct)
  case Nil
  show ?case by (simp add: sync_from_def)
next
  case (snoc entry entries)
  obtain source dest where e: "entry = (source, dest)" by (cases entry)
  let ?Q = "\<lambda>st source dest. isJunkDoc source \<or> \<not> existsSync (disk st) cwd source \<or>
      (\<not> is_directory (disk st) cwd source \<and> can_write (disk st) cwd (join cwd dest))"
  let ?P = "\<lambda>es i. ?Q (state_after cwd (take i es) v) (fst (es ! i)) (snd (es ! i))"
  have same: "list_all (?P (entries @ [entry])) [0..<length entries] =
      list_all (?P entries) [0..<length entries]"
    by (rule list.pred_cong) (auto simp: nth_append)
  have up: "[0..<length (entries @ [entry])] = [0..<length entries] @ [length entries]" by simp
  have final: "?P (entries @ [entry]) (length entries) = ?Q (state_after cwd entries v) source dest"
    by (simp add: e)
  have "(\<exists>st. sync_from cwd (entries @ [entry]) v = Inr st) \<longleftrightarrow>
      (\<exists>st0. sync_from cwd entries v = Inr st0 \<and>
         (\<exists>st1. sync_loop (posix cwd) cwd [(source, dest)] st0 = Inr st1))"
    by (cases "sync_from cwd entries v") (simp_all only: sync_from_snoc e sum.case sum.simps simp_thms ex_simps)
  also have "\<dots> \<longleftrightarrow> (\<exists>st0. sync_from cwd entries v = Inr st0 \<and> ?Q st0 source dest)"
    by (simp only: posix_one_returns)
  also have "\<dots> \<longleftrightarrow> (\<exists>st0. sync_from cwd entries v = Inr st0) \<and>
      ?Q (state_after cwd entries v) source dest"
    by (auto simp: state_after_returned)
  also have "\<dots> \<longleftrightarrow> list_all (?P entries) [0..<length entries] \<and>
      ?Q (state_after cwd entries v) source dest"
    by (simp only: snoc.IH)
  also have "\<dots> \<longleftrightarrow> list_all (?P (entries @ [entry])) [0..<length entries] \<and>
      list_all (?P (entries @ [entry])) [length entries]"
    by (simp only: same final list.pred_inject simp_thms)
  also have "\<dots> \<longleftrightarrow> list_all (?P (entries @ [entry])) ([0..<length entries] @ [length entries])"
    by (simp only: list_all_append)
  also have "\<dots> \<longleftrightarrow> list_all (?P (entries @ [entry])) [0..<length (entries @ [entry])]"
    by (simp only: up)
  finally show ?case .
qed

lemma syncDocs_posix_returns:
  "(\<exists>st. syncDocs_posix cwd entries v = Inr st) \<longleftrightarrow> (\<exists>st. sync_from cwd entries v = Inr st)"
  by (auto simp: syncDocs_posix_def sync_run_def sync_from_def split: sum.splits)

text \<open>
  The count of synced entries, entry by entry; a source that no destination of the mapping
  resolves to exists when the loop reaches it exactly if it existed before the run.
\<close>

lemma posix_one_disk:
  assumes "sync_loop (posix cwd) cwd [(source, dest)] st = Inr st'"
  shows "disk st' = disk st \<or>
     (\<exists>place content. locate (disk st) cwd (join cwd dest) = Inr place \<and>
        disk st' = (disk st)\<lparr>contents := (contents (disk st))(place \<mapsto> content)\<rparr>)"
  using assms
proof (cases rule: sync_one_cases)
  case blocked
  then show ?thesis by simp
next
  case missing
  then show ?thesis by simp
next
  case (copied content written)
  from copied(4) have "writeFileSync (disk st) cwd (join cwd dest) content = Inr written"
    by (simp add: posix_def)
  then obtain place where "locate (disk st) cwd (join cwd dest) = Inr place"
    and "written = (disk st)\<lparr>contents := (contents (disk st))(place \<mapsto> content)\<rparr>"
    unfolding writeFileSync_Inr by blast
  with copied(5) show ?thesis by auto
qed

lemma posix_one_directories:
  "sync_loop (posix cwd) cwd [(source, dest)] st = Inr st' \<Longrightarrow>
   directories (disk st') = directories (disk st)"
  using posix_one_disk [of cwd source dest st st'] by auto

lemma posix_one_exists_unchanged:
  assumes "sync_loop (posix cwd) cwd [(source, dest)] st = Inr st'"
    and "\<not> same_place (disk st) cwd (join cwd dest) p"
  shows "existsSync (disk st') cwd p = existsSync (disk st) cwd p"
proof -
  from posix_one_disk [OF assms(1)] show ?thesis
  proof
    assume "disk st' = disk st"
    then show ?thesis by simp
  next
    assume "\<exists>place content. locate (disk st) cwd (join cwd dest) = Inr place \<and>
        disk st' = (disk st)\<lparr>contents := (contents (disk st))(place \<mapsto> content)\<rparr>"
    then obtain place content where l: "locate (disk st) cwd (join cwd dest) = Inr place"
      and d: "disk st' = (disk st)\<lparr>contents := (contents (disk st))(place \<mapsto> content)\<rparr>"
      by blast
    from assms(2) l have "locate (disk st) cwd p \<noteq> Inr place" by (simp add: same_place_def)
    from existsSync_written [OF l this] d show ?thesis by simp
  qed
qed

lemma posix_exists_unchanged:
  assumes "sync_loop (posix cwd) cwd entries st = Inr st'"
    and "\<forall>(source, dest) \<in> set entries. \<not> same_place (disk st) cwd (join cwd dest) p"
  shows "existsSync (disk st') cwd p = existsSync (disk st) cwd p"
  using assms
proof (induction entries arbitrary: st)
  case Nil
  then show ?case by simp
next
  case (Cons entry entries)
  obtain source dest where e: "entry = (source, dest)" by (cases entry)
  from Cons.prems(1) have "sync_loop (posix cwd) cwd ([(source, dest)] @ entries) st = Inr st'"
    by (simp add: e)
  then obtain mid where one: "sync_loop (posix cwd) cwd [(source, dest)] st = Inr mid"
    and rest: "sync_loop (posix cwd) cwd entries mid = Inr st'"
    unfolding sync_loop_append by (auto split: sum.splits)
  from Cons.prems(2) have here: "\<not> same_place (disk st) cwd (join cwd dest) p"
    and later: "\<forall>(source, dest) \<in> set entries. \<not> same_place (disk st) cwd (join cwd dest) p"
    by (auto simp: e)
  have dm: "directories (disk mid) = directories (disk st)"
    by (rule posix_one_directories [OF one])
  from later have "\<forall>(source, dest) \<in> set entries. \<not> same_place (disk mid) cwd (join cwd dest) p"
    by (simp add: same_place_directories [OF dm])
  from Cons.IH [OF rest this] posix_one_exists_unchanged [OF one here] show ?case by simp
qed

lemma synced_sync_from:
  "sync_from cwd entries v = Inr st \<Longrightarrow>
   synced st =
     length (filter (\<lambda>i. \<not> isJunkDoc (fst (entries ! i)) \<and>
                        existsSync (disk (state_after cwd (take i entries) v)) cwd (fst (entries ! i)))
               [0..<length entries])"
proof (induction entries arbitrary: st rule: rev_induct)
  case Nil
  then show ?case by (auto simp: sync_from_def start_def)
next
  case (snoc entry entries)
  obtain source dest where e: "entry = (source, dest)" by (cases entry)
  let ?P = "\<lambda>es i. \<not> isJunkDoc (fst (es ! i)) \<and>
                 existsSync (disk (state_after cwd (take i es) v)) cwd (fst (es ! i))"
  from snoc.prems obtain st0 where before: "sync_from cwd entries v = Inr st0"
    and one: "sync_loop (posix cwd) cwd [(source, dest)] st0 = Inr st"
    unfolding sync_from_snoc by (auto simp: e split: sum.splits)
  have same: "filter (?P (entries @ [entry])) [0..<length entries] = filter (?P entries) [0..<length entries]"
    by (rule filter_cong) (auto simp: nth_append)
  have last: "?P (entries @ [entry]) (length entries) \<longleftrightarrow>
      \<not> isJunkDoc source \<and> existsSync (disk st0) cwd source"
    by (simp add: e state_after_returned [OF before])
  from sync_one_counts(2) [OF one]
  have "synced st = synced st0 +
        (if \<not> isJunkDoc source \<and> existsSync (disk st0) cwd source then 1 else 0)"
    by (simp add: posix_def)
  also have "\<dots> = length (filter (?P (entries @ [entry])) [0..<length (entries @ [entry])])"
    using snoc.IH [OF before] same last by simp
  finally show ?case .
qed

lemma synced_sync_from_no_alias:
  assumes run: "sync_from cwd entries v = Inr st"
    and na: "\<forall>(source, dest) \<in> set entries. \<forall>(other, dest') \<in> set entries.
               \<not> same_place v cwd (join cwd dest) other"
  shows "synced st =
     length (filter (\<lambda>(source, dest). \<not> isJunkDoc source \<and> existsSync v cwd source) entries)"
proof -
  let ?P = "\<lambda>(source, dest). \<not> isJunkDoc source \<and> existsSync v cwd source"
  have untouched: "existsSync (disk (state_after cwd (take i entries) v)) cwd (fst (entries ! i)) =
      existsSync v cwd (fst (entries ! i))"
    if i: "i < length entries" for i
  proof -
    from run have "sync_from cwd (take i entries @ drop i entries) v = Inr st" by simp
    from sync_from_prefix [OF this]
    obtain sti where sti: "sync_from cwd (take i entries) v = Inr sti" by blast
    obtain other dest' where o: "entries ! i = (other, dest')" by (cases "entries ! i")
    with i have mem: "(other, dest') \<in> set entries" by (metis nth_mem)
    have "\<forall>(source, dest) \<in> set (take i entries).
        \<not> same_place (disk (start v)) cwd (join cwd dest) other"
    proof (clarify)
      fix source dest
      assume m: "(source, dest) \<in> set (take i entries)"
        and s: "same_place (disk (start v)) cwd (join cwd dest) other"
      from m have "(source, dest) \<in> set entries" by (rule in_set_takeD)
      with na mem have "\<not> same_place v cwd (join cwd dest) other" by blast
      with s show False by (simp add: start_def)
    qed
    from posix_exists_unchanged [OF sti [unfolded sync_from_def] this]
    show ?thesis by (simp add: state_after_returned [OF sti] o start_def)
  qed
  from synced_sync_from [OF run]
  have "synced st =
      length (filter (\<lambda>i. \<not> isJunkDoc (fst (entries ! i)) \<and>
                        existsSync (disk (state_after cwd (take i entries) v)) cwd (fst (entries ! i)))
               [0..<length entries])" .
  also have "\<dots> = length (filter (?P \<circ> (!) entries) [0..<length entries])"
    by (rule arg_cong [where f = length], rule filter_cong)
       (auto simp: untouched split: prod.split)
  also have "\<dots> = length (filter ?P (map ((!) entries) [0..<length entries]))"
    by (simp only: length_filter_map)
  also have "\<dots> = length (filter ?P entries)"
    by (simp only: map_nth)
  finally show ?thesis .
qed

lemma syncDocs_posix_blocked:
  assumes "syncDocs_posix cwd entries v = Inr st"
  shows "blocked st = length (filter (\<lambda>(source, dest). isJunkDoc source) entries)"
    and "Blocked source \<in> set (printed st) \<longleftrightarrow> source \<in> fst ` set entries \<and> isJunkDoc source"
proof -
  from assms obtain st0 where loop: "sync_loop (posix cwd) cwd entries (start v) = Inr st0"
    and st: "st = st0\<lparr>printed := printed st0 @ [Summary (synced st0) (blocked st0)]\<rparr>"
    by (auto simp: syncDocs_posix_def sync_run_def split: sum.splits)
  from sync_loop_blocked [OF loop] st
  show "blocked st = length (filter (\<lambda>(source, dest). isJunkDoc source) entries)"
    by (simp add: start_def)
  from sync_loop_blocked_lines [OF loop, of source] st
  show "Blocked source \<in> set (printed st) \<longleftrightarrow> source \<in> fst ` set entries \<and> isJunkDoc source"
    by (simp add: start_def)
qed

section \<open>The claims about the Sync Engine\<close>


text \<open>
  Claim C7, as amended. On directories and files, for every mapping, working directory and
  volume:

  \<^item> the run completes without raising exactly when every entry, in the state in which the loop
    reaches it, is blocked, or has a source that does not exist, or has a source that is not
    a directory and a destination to which a file can be written (the first entry for which
    this fails is always reached; for an entry behind it the state at the start stands in);

  \<^item> an entry that is not blocked and whose source does not exist when the loop reaches it is
    skipped without raising: files and counts stay as they are;

  \<^item> an entry that is not blocked, whose source exists then and is not a directory, and whose
    destination can be written, has the place of the destination set to exactly the content
    read from the source, with nothing else on the volume changed; a read of the destination
    returns that content, the count of synced entries goes up by one and the count of blocked
    entries stays;

  \<^item> an entry that is not blocked and whose source exists then, but is a directory or has a
    destination that cannot be written, ends the run with an exception;

  \<^item> when the run completes, the final count of synced entries is the number of entries that
    are not blocked and whose source exists when the loop reaches them; when no destination of
    the mapping names the place of a source of the mapping, that is the number of entries
    that are not blocked and whose source exists before the run.
\<close>

theorem syncDocs_posix_entries:
  "((\<exists>st. syncDocs_posix cwd entries v = Inr st) \<longleftrightarrow>
      list_all (\<lambda>i. isJunkDoc (fst (entries ! i)) \<or>
                  \<not> existsSync (disk (state_after cwd (take i entries) v)) cwd (fst (entries ! i)) \<or>
                  (\<not> is_directory (disk (state_after cwd (take i entries) v)) cwd (fst (entries ! i)) \<and>
                   can_write (disk (state_after cwd (take i entries) v)) cwd
                     (join cwd (snd (entries ! i)))))
        [0..<length entries]) \<and>
   (\<forall>before source dest rest st0.
      entries = before @ (source, dest) # rest \<and> sync_from cwd before v = Inr st0 \<and>
      \<not> isJunkDoc source \<longrightarrow>
        (\<not> existsSync (disk st0) cwd source \<longrightarrow>
           sync_from cwd (before @ [(source, dest)]) v = Inr st0) \<and>
        (existsSync (disk st0) cwd source \<and> \<not> is_directory (disk st0) cwd source \<and>
         can_write (disk st0) cwd (join cwd dest) \<longrightarrow>
           (\<exists>content place st1.
              readFileSync_path (disk st0) cwd source = Inr content \<and>
              locate (disk st0) cwd (join cwd dest) = Inr place \<and>
              sync_from cwd (before @ [(source, dest)]) v = Inr st1 \<and>
              disk st1 = (disk st0)\<lparr>contents := (contents (disk st0))(place \<mapsto> content)\<rparr> \<and>
              readFileSync_path (disk st1) cwd (join cwd dest) = Inr content \<and>
              synced st1 = synced st0 + 1 \<and> blocked st1 = blocked st0)) \<and>
        (existsSync (disk st0) cwd source \<and>
         (is_directory (disk st0) cwd source \<or> \<not> can_write (disk st0) cwd (join cwd dest)) \<longrightarrow>
           (\<exists>e. sync_from cwd (before @ [(source, dest)]) v = Inl e))) \<and>
   (\<forall>st. syncDocs_posix cwd entries v = Inr st \<longrightarrow>
      synced st =
        length (filter (\<lambda>i. \<not> isJunkDoc (fst (entries ! i)) \<and>
                  existsSync (disk (state_after cwd (take i entries) v)) cwd (fst (entries ! i)))
                [0..<length entries]) \<and>
      ((\<forall>(source, dest) \<in> set entries. \<forall>(other, dest') \<in> set entries.
           \<not> same_place v cwd (join cwd dest) other) \<longrightarrow>
         synced st =
           length (filter (\<lambda>(source, dest). \<not> isJunkDoc source \<and> existsSync v cwd source)
                     entries)))"
proof (intro conjI allI impI; (elim conjE)?)
  show "(\<exists>st. syncDocs_posix cwd entries v = Inr st) \<longleftrightarrow>
      list_all (\<lambda>i. isJunkDoc (fst (entries ! i)) \<or>
                  \<not> existsSync (disk (state_after cwd (take i entries) v)) cwd (fst (entries ! i)) \<or>
                  (\<not> is_directory (disk (state_after cwd (take i entries) v)) cwd (fst (entries ! i)) \<and>
                   can_write (disk (state_after cwd (take i entries) v)) cwd
                     (join cwd (snd (entries ! i)))))
        [0..<length entries]"
    by (simp only: syncDocs_posix_returns sync_from_returns)
next
  fix before source dest rest st0
  assume run: "sync_from cwd before v = Inr st0" and clean: "\<not> isJunkDoc source"
    and missing: "\<not> existsSync (disk st0) cwd source"
  show "sync_from cwd (before @ [(source, dest)]) v = Inr st0"
    by (simp only: sync_from_snoc run sum.case posix_one_missing [OF clean missing])
next
  fix before source dest rest st0
  assume run: "sync_from cwd before v = Inr st0" and clean: "\<not> isJunkDoc source"
    and there: "existsSync (disk st0) cwd source" and nodir: "\<not> is_directory (disk st0) cwd source"
    and room: "can_write (disk st0) cwd (join cwd dest)"
  from posix_one_copy [OF clean there nodir room]
  obtain content place where r: "readFileSync_path (disk st0) cwd source = Inr content"
    and l: "locate (disk st0) cwd (join cwd dest) = Inr place"
    and nd: "place \<notin> directories (disk st0)"
    and one: "sync_loop (posix cwd) cwd [(source, dest)] st0 =
        Inr (st0\<lparr>disk := (disk st0)\<lparr>contents := (contents (disk st0))(place \<mapsto> content)\<rparr>,
               printed := printed st0 @ [Synced source dest],
               synced := synced st0 + 1\<rparr>)"
    by blast
  let ?st1 = "st0\<lparr>disk := (disk st0)\<lparr>contents := (contents (disk st0))(place \<mapsto> content)\<rparr>,
               printed := printed st0 @ [Synced source dest],
               synced := synced st0 + 1\<rparr>"
  have "sync_from cwd (before @ [(source, dest)]) v = Inr ?st1"
    by (simp only: sync_from_snoc run sum.case one)
  moreover have "readFileSync_path (disk ?st1) cwd (join cwd dest) = Inr content"
    using readFileSync_path_written [OF l nd] by simp
  ultimately show "\<exists>content place st1.
              readFileSync_path (disk st0) cwd source = Inr content \<and>
              locate (disk st0) cwd (join cwd dest) = Inr place \<and>
              sync_from cwd (before @ [(source, dest)]) v = Inr st1 \<and>
              disk st1 = (disk st0)\<lparr>contents := (contents (disk st0))(place \<mapsto> content)\<rparr> \<and>
              readFileSync_path (disk st1) cwd (join cwd dest) = Inr content \<and>
              synced st1 = synced st0 + 1 \<and> blocked st1 = blocked st0"
    using r l by (intro exI [of _ content] exI [of _ place] exI [of _ ?st1]) simp
next
  fix before source dest rest st0
  assume run: "sync_from cwd before v = Inr st0" and clean: "\<not> isJunkDoc source"
    and there: "existsSync (disk st0) cwd source"
    and bad: "is_directory (disk st0) cwd source \<or> \<not> can_write (disk st0) cwd (join cwd dest)"
  from posix_one_raises [OF clean there bad]
  show "\<exists>e. sync_from cwd (before @ [(source, dest)]) v = Inl e"
    by (simp only: sync_from_snoc run sum.case)
next
  fix st
  assume "syncDocs_posix cwd entries v = Inr st"
  from syncDocs_posix_Inr [OF this]
  obtain st0 where run: "sync_from cwd entries v = Inr st0" and s: "synced st = synced st0"
    by blast
  from synced_sync_from [OF run] s
  show "synced st =
        length (filter (\<lambda>i. \<not> isJunkDoc (fst (entries ! i)) \<and>
                  existsSync (disk (state_after cwd (take i entries) v)) cwd (fst (entries ! i)))
                [0..<length entries])"
    by simp
next
  fix st
  assume "syncDocs_posix cwd entries v = Inr st"
    and na: "\<forall>(source, dest) \<in> set entries. \<forall>(other, dest') \<in> set entries.
           \<not> same_place v cwd (join cwd dest) other"
  from syncDocs_posix_Inr [OF this(1)]
  obtain st0 where run: "sync_from cwd entries v = Inr st0" and s: "synced st = synced st0"
    by blast
  from synced_sync_from_no_alias [OF run na] s
  show "synced st =
           length (filter (\<lambda>(source, dest). \<not> isJunkDoc source \<and> existsSync v cwd source)
                     entries)"
    by simp
qed

theorem syncDocs_posix_entries_witness:
  "(\<exists>st. syncDocs_posix ''/docs''
           [(''/src/a.md'', ''guide/a.md''), (''/src/gone.md'', ''guide/gone.md'')]
           \<lparr>contents = [[''src'', ''a.md''] \<mapsto> ''hello''],
            directories = {[], [''src''], [''docs''], [''docs'', ''guide'']}\<rparr> = Inr st \<and>
         synced st = 1) \<and>
   (\<exists>st1. sync_from ''/docs'' [(''/src/a.md'', ''guide/a.md'')]
           \<lparr>contents = [[''src'', ''a.md''] \<mapsto> ''hello''],
            directories = {[], [''src''], [''docs''], [''docs'', ''guide'']}\<rparr> = Inr st1 \<and>
          readFileSync_path (disk st1) ''/docs'' ''/docs/guide/a.md'' = Inr ''hello'' \<and>
          sync_from ''/docs''
            [(''/src/a.md'', ''guide/a.md''), (''/src/gone.md'', ''guide/gone.md'')]
            \<lparr>contents = [[''src'', ''a.md''] \<mapsto> ''hello''],
             directories = {[], [''src''], [''docs''], [''docs'', ''guide'']}\<rparr> = Inr st1) \<and>
   (\<exists>e. sync_from ''/docs'' [(''/src/a.md'', ''guide/a.md'')]
          \<lparr>contents = [[''src'', ''a.md''] \<mapsto> ''hello''],
           directories = {[], [''src''], [''docs'']}\<rparr> = Inl e) \<and>
   (\<nexists>st. syncDocs_posix ''/docs'' [(''/src/a.md'', ''guide/a.md'')]
          \<lparr>contents = [[''src'', ''a.md''] \<mapsto> ''hello''],
           directories = {[], [''src''], [''docs'']}\<rparr> = Inr st)"
proof -
  define v :: "string volume" where "v = \<lparr>contents = [[''src'', ''a.md''] \<mapsto> ''hello''],
            directories = {[], [''src''], [''docs''], [''docs'', ''guide'']}\<rparr>"
  define w :: "string volume" where "w = \<lparr>contents = [[''src'', ''a.md''] \<mapsto> ''hello''],
            directories = {[], [''src''], [''docs'']}\<rparr>"
  define first where "first = (''/src/a.md'', ''guide/a.md'')"
  define second where "second = (''/src/gone.md'', ''guide/gone.md'')"
  define cwd where "cwd = ''/docs''"
  note step1 = syncDocs_posix_entries [of cwd "[first, second]" v, THEN conjunct2, THEN conjunct1, rule_format,
      of "[]" "''/src/a.md''" "''guide/a.md''" "[second]" "start v"]
  note step2 = syncDocs_posix_entries [of cwd "[first, second]" v, THEN conjunct2, THEN conjunct1, rule_format,
      of "[first]" "''/src/gone.md''" "''guide/gone.md''" "[]"]
  note whole = syncDocs_posix_entries [of cwd "[first, second]" v, THEN conjunct2, THEN conjunct2, rule_format]
  note completes' = syncDocs_posix_entries [of cwd "[first]" w, THEN conjunct1]
  note stepw = syncDocs_posix_entries [of cwd "[first]" w, THEN conjunct2, THEN conjunct1, rule_format,
      of "[]" "''/src/a.md''" "''guide/a.md''" "[]" "start w"]
  have clean: "\<not> isJunkDoc ''/src/a.md''" "\<not> isJunkDoc ''/src/gone.md''" by code_simp+
  have empty_run: "sync_from cwd [] v = Inr (start v)" "sync_from cwd [] w = Inr (start w)"
    by (simp_all add: sync_from_def)
  have dest: "join cwd ''guide/a.md'' = ''/docs/guide/a.md''" unfolding cwd_def by code_simp
  have disk0: "disk (start v) = v" "disk (start w) = w" "synced (start v) = 0"
    by (simp_all add: start_def)
  \<comment> \<open>the first entry is copied\<close>
  have there: "existsSync v cwd ''/src/a.md''" "\<not> is_directory v cwd ''/src/a.md''"
      "can_write v cwd ''/docs/guide/a.md''"
    unfolding v_def cwd_def by code_simp+
  from step1 [THEN conjunct2, THEN conjunct1] empty_run(1) clean(1) there
  have "\<exists>content place st1.
      readFileSync_path (disk (start v)) cwd ''/src/a.md'' = Inr content \<and>
      locate (disk (start v)) cwd (join cwd ''guide/a.md'') = Inr place \<and>
      sync_from cwd ([] @ [(''/src/a.md'', ''guide/a.md'')]) v = Inr st1 \<and>
      disk st1 = (disk (start v))\<lparr>contents := (contents (disk (start v)))(place \<mapsto> content)\<rparr> \<and>
      readFileSync_path (disk st1) cwd (join cwd ''guide/a.md'') = Inr content \<and>
      synced st1 = synced (start v) + 1 \<and> blocked st1 = blocked (start v)"
    by (simp add: first_def disk0 dest)
  then obtain content place st1
    where r: "readFileSync_path v cwd ''/src/a.md'' = Inr content"
      and l: "locate v cwd ''/docs/guide/a.md'' = Inr place"
      and one: "sync_from cwd [first] v = Inr st1"
      and d: "disk st1 = v\<lparr>contents := (contents v)(place \<mapsto> content)\<rparr>"
      and wr: "readFileSync_path (disk st1) cwd ''/docs/guide/a.md'' = Inr content"
      and s1: "synced st1 = 1"
    unfolding disk0 dest first_def by auto
  have "readFileSync_path v cwd ''/src/a.md'' = Inr ''hello''"
    unfolding v_def cwd_def by code_simp
  with r have content: "content = ''hello''" by simp
  have "locate v cwd ''/docs/guide/a.md'' = Inr [''docs'', ''guide'', ''a.md'']"
    unfolding v_def cwd_def by code_simp
  with l have place: "place = [''docs'', ''guide'', ''a.md'']" by simp
  \<comment> \<open>the second entry is skipped\<close>
  have "\<not> existsSync (v\<lparr>contents := (contents v)([''docs'', ''guide'', ''a.md''] \<mapsto> ''hello'')\<rparr>)
      cwd ''/src/gone.md''"
    unfolding v_def cwd_def by code_simp
  then have gone: "\<not> existsSync (disk st1) cwd ''/src/gone.md''"
    unfolding d place content .
  from step2 [of st1, THEN conjunct1] one clean(2) gone
  have "sync_from cwd ([first] @ [(''/src/gone.md'', ''guide/gone.md'')]) v = Inr st1"
    by (simp add: second_def)
  then have both: "sync_from cwd [first, second] v = Inr st1" by (simp add: second_def)
  \<comment> \<open>the count of the whole run\<close>
  define st where "st = st1\<lparr>printed := printed st1 @ [Summary (synced st1) (blocked st1)]\<rparr>"
  from both have run: "syncDocs_posix cwd [first, second] v = Inr st"
    by (simp add: syncDocs_posix_def sync_run_def sync_from_def st_def)
  have apart: "\<forall>(source, dest) \<in> set [first, second]. \<forall>(other, dest') \<in> set [first, second].
      \<not> same_place v cwd (join cwd dest) other"
    unfolding v_def cwd_def first_def second_def by code_simp
  have "length (filter (\<lambda>(source, dest). \<not> isJunkDoc source \<and> existsSync v cwd source)
                [first, second]) = 1"
    unfolding v_def cwd_def first_def second_def by code_simp
  with whole [OF run, THEN conjunct2, THEN mp, OF apart]
  have count: "synced st = 1" by simp
  \<comment> \<open>without the directory of the destination the run raises\<close>
  have stuck: "existsSync w cwd ''/src/a.md''" "\<not> can_write w cwd ''/docs/guide/a.md''"
    unfolding w_def cwd_def by code_simp+
  from stepw [THEN conjunct2, THEN conjunct2] empty_run(2) clean(1) stuck
  have "\<exists>e. sync_from cwd ([] @ [(''/src/a.md'', ''guide/a.md'')]) w = Inl e"
    by (simp add: first_def disk0 dest)
  then obtain e where raised: "sync_from cwd [first] w = Inl e" by (auto simp add: first_def)
  have "\<not> list_all (\<lambda>i. isJunkDoc (fst ([first] ! i)) \<or>
                  \<not> existsSync (disk (state_after cwd (take i [first]) w)) cwd (fst ([first] ! i)) \<or>
                  (\<not> is_directory (disk (state_after cwd (take i [first]) w)) cwd (fst ([first] ! i)) \<and>
                   can_write (disk (state_after cwd (take i [first]) w)) cwd
                     (join cwd (snd ([first] ! i)))))
        [0..<length [first]]"
    unfolding w_def cwd_def first_def by code_simp
  with completes' have never: "\<nexists>st. syncDocs_posix cwd [first] w = Inr st" by simp
  from wr content have "readFileSync_path (disk st1) cwd ''/docs/guide/a.md'' = Inr ''hello''"
    by simp
  with run count one both raised never show ?thesis
    unfolding v_def w_def cwd_def first_def second_def by blast
qed

text \<open>
  The claim as it was stated fails twice. In a working directory without the directory
  \<open>guide\<close> the run raises \<open>ENOENT\<close> on the write, although the source exists and is not
  blocked. And with the mapping from \<open>/src/a.md\<close> to \<open>./b.md\<close> and from \<open>/docs/b.md\<close> to
  \<open>c.md\<close>, run in \<open>/docs\<close>, the second source does not exist before the run and is written
  by the first entry: two entries are synced, where one source that is not blocked existed.
\<close>

theorem syncDocs_raises_or_counts_counterexample:
  "\<not> isJunkDoc ''/src/a.md'' \<and>
   existsSync \<lparr>contents = [[''src'', ''a.md''] \<mapsto> ''text''],
               directories = {[], [''src''], [''docs'']}\<rparr> ''/docs'' ''/src/a.md'' \<and>
   syncDocs_posix ''/docs'' [(''/src/a.md'', ''guide/a.md'')]
     \<lparr>contents = [[''src'', ''a.md''] \<mapsto> ''text''],
      directories = {[], [''src''], [''docs'']}\<rparr> = Inl ENOENT \<and>
   \<not> isJunkDoc ''/docs/b.md'' \<and>
   \<not> existsSync \<lparr>contents = [[''src'', ''a.md''] \<mapsto> ''text''],
                 directories = {[], [''src''], [''docs'']}\<rparr> ''/docs'' ''/docs/b.md'' \<and>
   map_sum id synced
     (syncDocs_posix ''/docs'' [(''/src/a.md'', ''./b.md''), (''/docs/b.md'', ''c.md'')]
        \<lparr>contents = [[''src'', ''a.md''] \<mapsto> ''text''],
         directories = {[], [''src''], [''docs'']}\<rparr>) = Inr 2"
proof -
  have clean: "\<not> isJunkDoc ''/src/a.md''" "\<not> isJunkDoc ''/docs/b.md''"
    by code_simp+
  have before: "existsSync \<lparr>contents = [[''src'', ''a.md''] \<mapsto> ''text''],
               directories = {[], [''src''], [''docs'']}\<rparr> ''/docs'' ''/src/a.md''"
    "\<not> existsSync \<lparr>contents = [[''src'', ''a.md''] \<mapsto> ''text''],
                 directories = {[], [''src''], [''docs'']}\<rparr> ''/docs'' ''/docs/b.md''"
    by code_simp+
  have "case syncDocs_posix ''/docs'' [(''/src/a.md'', ''guide/a.md'')]
     \<lparr>contents = [[''src'', ''a.md''] \<mapsto> ''text''],
      directories = {[], [''src''], [''docs'']}\<rparr> of Inl e \<Rightarrow> e = ENOENT | Inr st \<Rightarrow> False"
    by code_simp
  then have raised: "syncDocs_posix ''/docs'' [(''/src/a.md'', ''guide/a.md'')]
     \<lparr>contents = [[''src'', ''a.md''] \<mapsto> ''text''],
      directories = {[], [''src''], [''docs'']}\<rparr> = Inl ENOENT"
    by (auto split: sum.splits)
  have counted: "map_sum id synced
     (syncDocs_posix ''/docs'' [(''/src/a.md'', ''./b.md''), (''/docs/b.md'', ''c.md'')]
        \<lparr>contents = [[''src'', ''a.md''] \<mapsto> ''text''],
         directories = {[], [''src''], [''docs'']}\<rparr>) = Inr 2"
    by code_simp
  from clean before raised counted show ?thesis by blast
qed


end
